theory Spec2Isabelle
  imports Complex_Main "HOL-Library.Monad_Syntax" "HOL-Library.Word"
begin

section \<open>The model tree of the Stage simulator (libstage/model.cc)\<close>

text \<open>
  The embedding follows \<^verbatim>\<open>src/libstage/model.cc\<close>, which holds the member functions
  of \<^verbatim>\<open>StgModel\<close> and, after them, those of \<^verbatim>\<open>StgBlock\<close>. A \<^verbatim>\<open>StgModel*\<close> is an
  address (a natural number) into a heap of model objects held by the world; a null pointer is
  \<open>None\<close>. The C type \<^verbatim>\<open>double\<close> is idealised as \<open>real\<close>: every statement below is about
  exact arithmetic. Two things follow. A real number has one representation, so \<^verbatim>\<open>memcmp\<close>
  on two poses is equality of their four components; the two zeros of a \<^verbatim>\<open>double\<close> are not
  told apart. And the pixel of a coordinate is the floor of an exact product; where the
  statements give pixels in numbers, the models have heading 0 and their vertices lie on
  multiples of a quarter of a metre or well inside a pixel, so that rounding in
  \<^verbatim>\<open>double\<close> does not move a vertex to another pixel.
  HOL records share one name space, so the fields \<^verbatim>\<open>x, y, z, a\<close> of a pose carry the
  prefix \<open>pose_\<close>, those of a point \<open>pt_\<close>, those of a size \<open>size_\<close>.
\<close>

subsection \<open>Data\<close>

type_synonym ptr = nat

record stg_pose_t =
  pose_x :: real
  pose_y :: real
  pose_z :: real
  pose_a :: real

type_synonym stg_velocity_t = stg_pose_t

record stg_size_t =
  size_x :: real
  size_y :: real
  size_z :: real

record stg_geom_t =
  geom_pose :: stg_pose_t
  geom_size :: stg_size_t

record stg_point_t =
  pt_x :: real
  pt_y :: real

type_synonym stg_color_t = "32 word"

record stg_trail_item_t =
  tr_pose :: stg_pose_t
  tr_color :: stg_color_t
  tr_time :: nat

record stg_point3_t =
  pt3_x :: real
  pt3_y :: real
  pt3_z :: real

text \<open>
  The spatial index holds, for every pixel, a singly linked list of cells, each naming a block
  mapped there. The lists of all pixels are kept together as one list of cells, most recently
  inserted first: the list of a pixel is the sublist of the cells at that pixel, and the
  pointer to its head is the pixel. A cell has an address, which the allocator hands out from
  \<^verbatim>\<open>next_link\<close>. A block is named by its owner and its position in the owner's block
  list. Regions and superregions each keep a counter, an \<^verbatim>\<open>unsigned int\<close>; a pointer to a
  counter is the name of the counter. Pixel coordinates are C integers, modelled as
  mathematical integers.
\<close>

type_synonym pixel = "int \<times> int"

type_synonym block_ref = "ptr \<times> nat"

datatype counter = region_counter pixel | superregion_counter pixel

record index_entry =
  cell :: pixel
  addr :: nat
  blk :: block_ref

text \<open>
  The handle that a block keeps for every cell inserted on its behalf
  (\<^verbatim>\<open>stg_list_entry_t\<close>): the list head, the cell and the two counters.
\<close>

record stg_list_entry_t =
  head :: pixel
  link :: nat
  counter1 :: counter
  counter2 :: counter

text \<open>
  The fields of \<^verbatim>\<open>StgBlock\<close> that mapping reads and writes; \<^verbatim>\<open>pt_count\<close> is the length
  of \<^verbatim>\<open>pts\<close>, and the owner \<^verbatim>\<open>mod\<close> is the model whose block list holds the block.
\<close>

record StgBlock =
  pts :: "stg_point_t list"
  pts_global_pixels :: "pixel list"
  zmin :: real
  zmax :: real
  rendered_points :: "stg_list_entry_t list"
  global_zmin :: real
  global_zmax :: real

record StgModel =
  parent :: "ptr option"
  children :: "ptr list"
  pose :: stg_pose_t
  global_pose :: stg_pose_t
  gpose_dirty :: bool
  geom :: stg_geom_t
  velocity :: stg_velocity_t
  on_velocity_list :: bool
  stall :: bool
  disabled :: bool
  subs :: int
  blocks :: "StgBlock list"
  trail :: "stg_trail_item_t list"
  color :: stg_color_t
  obstacle_return :: int
  rebuild_displaylist :: bool
  initfunc :: bool

text \<open>
  The callback table is keyed by the address of the attribute that changed; the keys used by
  the functions below are enumerated. The callbacks themselves and \<^verbatim>\<open>initfunc\<close> are user
  code: the model records that they ran, in order, in the world's event list.
\<close>

datatype hook = cb_pose | cb_velocity | cb_stall | startup_hook | shutdown_hook

datatype event = Callback ptr hook | InitFunc ptr

record StgWorld =
  mem :: "ptr \<Rightarrow> StgModel"
  velocity_list :: "ptr list"
  update_list :: "ptr list"
  updates :: nat
  sim_time :: nat
  interval_sim :: nat
  total_subs :: int
  ppm :: real
  index :: "index_entry list"
  counters :: "counter \<Rightarrow> 32 word"
  next_link :: nat
  events :: "event list"

definition upd :: "StgWorld \<Rightarrow> ptr \<Rightarrow> (StgModel \<Rightarrow> StgModel) \<Rightarrow> StgWorld" where
  "upd w this f = w\<lparr>mem := (mem w)(this := f (mem w this))\<rparr>"

subsection \<open>Geometry primitives and world services that model.cc calls\<close>

text \<open>
  Modelled from the spec: \<^verbatim>\<open>pose_sum\<close> (and its pointer form \<^verbatim>\<open>stg_pose_sum\<close>) is
  defined outside model.cc. Section 4.1: the result is
  \<open>(a.x + b.x cos a.a - b.y sin a.a, a.y + b.x sin a.a + b.y cos a.a, a.z + b.z, a.a + b.a)\<close>.
\<close>

definition pose_sum :: "stg_pose_t \<Rightarrow> stg_pose_t \<Rightarrow> stg_pose_t" where
  "pose_sum p1 p2 =
     \<lparr>pose_x = pose_x p1 + pose_x p2 * cos (pose_a p1) - pose_y p2 * sin (pose_a p1),
      pose_y = pose_y p1 + pose_x p2 * sin (pose_a p1) + pose_y p2 * cos (pose_a p1),
      pose_z = pose_z p1 + pose_z p2,
      pose_a = pose_a p1 + pose_a p2\<rparr>"

text \<open>
  Modelled from the spec: \<^verbatim>\<open>normalize\<close> is defined outside model.cc. Section 4.1: it
  returns its argument modulo \<open>2 pi\<close>, shifted into the half-open interval \<open>(-pi, pi]\<close>.
\<close>

definition normalize :: "real \<Rightarrow> real" where
  "normalize t = t - 2 * pi * of_int \<lceil>(t - pi) / (2 * pi)\<rceil>"

text \<open>
  Modelled from the spec: \<^verbatim>\<open>CallCallbacks\<close> is defined outside model.cc. Section 6:
  the callbacks registered for the key run synchronously and receive the model. Here the call
  is recorded.
\<close>

definition CallCallbacks :: "StgWorld \<Rightarrow> ptr \<Rightarrow> hook \<Rightarrow> StgWorld" where
  "CallCallbacks w this k = w\<lparr>events := events w @ [Callback this k]\<rparr>"

text \<open>
  Modelled from the spec: \<^verbatim>\<open>StgWorld::StartUpdatingModel\<close> is defined outside model.cc.
  Section 4.5: it maintains the update list; Section 3: the model is placed on the world's
  update list.
\<close>

definition StartUpdatingModel :: "StgWorld \<Rightarrow> ptr \<Rightarrow> StgWorld" where
  "StartUpdatingModel w this = w\<lparr>update_list := update_list w @ [this]\<rparr>"

text \<open>
  Modelled from the spec: \<^verbatim>\<open>StgWorld::StopUpdatingModel\<close> is defined outside model.cc.
  Section 4.5: it maintains the update list; Section 4.4: the last unsubscription deregisters
  the model.
\<close>

definition StopUpdatingModel :: "StgWorld \<Rightarrow> ptr \<Rightarrow> StgWorld" where
  "StopUpdatingModel w this = w\<lparr>update_list := remove1 this (update_list w)\<rparr>"

subsection \<open>Ancestors\<close>

text \<open>
  \<^verbatim>\<open>Parent()\<close> returns the parent pointer. Calling a member function through a null
  pointer has no defined result; the model makes it the fault \<open>NullPointerCall\<close>.
  The recursion follows parent pointers and need not end when they form a cycle, so the
  function is partial: \<open>None\<close> means that the call does not return.
\<close>

datatype fault = NullPointerCall

partial_function (option) IsAntecedent ::
    "StgWorld \<Rightarrow> ptr option \<Rightarrow> ptr option \<Rightarrow> (fault + bool) option" where
  "IsAntecedent w this testmod =
     (case this of
        None \<Rightarrow> Some (Inl NullPointerCall)
      | Some t \<Rightarrow>
          if Some t = testmod then Some (Inr True)
          else IsAntecedent w (parent (mem w t)) testmod \<bind>
               (\<lambda>r. case r of
                      Inl e \<Rightarrow> Some (Inl e)
                    | Inr b \<Rightarrow> if b then Some (Inr True) else Some (Inr False)))"

text \<open>
  \<open>is_chain w m ps\<close>: the parent pointers starting at \<open>m\<close> lead through exactly the models
  \<open>ps\<close> (nearest ancestor first) and end at a model without a parent.
\<close>

fun is_chain :: "StgWorld \<Rightarrow> ptr \<Rightarrow> ptr list \<Rightarrow> bool" where
  "is_chain w m [] = (parent (mem w m) = None)"
| "is_chain w m (p # ps) = (parent (mem w m) = Some p \<and> is_chain w p ps)"

subsection \<open>Global pose\<close>

text \<open>
  The test of \<^verbatim>\<open>gpose_dirty\<close> is commented out in the source, so the global pose is
  recomputed on every call, recursively through the parents; the cached copy and the dirty flag
  of every model on the way are written.
\<close>

partial_function (option) GetGlobalPose ::
    "StgWorld \<Rightarrow> ptr \<Rightarrow> (stg_pose_t \<times> StgWorld) option" where
  "GetGlobalPose w this =
     (case parent (mem w this) of
        Some p \<Rightarrow>
          do {
            (parent_pose, w1) \<leftarrow> GetGlobalPose w p;
            let g = pose_sum parent_pose (pose (mem w1 this));
            let g = g\<lparr>pose_z := pose_z g + size_z (geom_size (geom (mem w1 p)))\<rparr>;
            let w2 = upd w1 this (\<lambda>m. m\<lparr>global_pose := g\<rparr>);
            let w3 = upd w2 this (\<lambda>m. m\<lparr>gpose_dirty := False\<rparr>);
            Some (global_pose (mem w3 this), w3)
          }
      | None \<Rightarrow>
          (let w2 = upd w this (\<lambda>m. m\<lparr>global_pose := pose m\<rparr>);
               w3 = upd w2 this (\<lambda>m. m\<lparr>gpose_dirty := False\<rparr>)
           in Some (global_pose (mem w3 this), w3)))"



definition LocalToGlobal :: "StgWorld \<Rightarrow> ptr \<Rightarrow> stg_pose_t \<Rightarrow> (stg_pose_t \<times> StgWorld) option" where
  "LocalToGlobal w this p =
     do {
       (g, w1) \<leftarrow> GetGlobalPose w this;
       Some (pose_sum (pose_sum g (geom_pose (geom (mem w1 this)))) p, w1)
     }"


subsection \<open>Blocks, the spatial index and the raytracer\<close>

text \<open>
  \<^verbatim>\<open>hypot\<close> and \<^verbatim>\<open>atan2\<close> of the C library, over the reals.
\<close>

definition hypot :: "real \<Rightarrow> real \<Rightarrow> real" where
  "hypot dx dy = sqrt (dx * dx + dy * dy)"

definition atan2 :: "real \<Rightarrow> real \<Rightarrow> real" where
  "atan2 dy dx =
     (if 0 < dx then arctan (dy / dx)
      else if dx < 0 then (if 0 \<le> dy then arctan (dy / dx) + pi else arctan (dy / dx) - pi)
      else if 0 < dy then pi / 2
      else if dy < 0 then - (pi / 2)
      else 0)"

text \<open>
  A loop over a list whose body may not return: the steps run in order on the state, and the
  loop returns when every step does.
\<close>

fun foldM_opt :: "('a \<Rightarrow> 's \<Rightarrow> 's option) \<Rightarrow> 'a list \<Rightarrow> 's \<Rightarrow> 's option" where
  "foldM_opt f [] s = Some s"
| "foldM_opt f (x # xs) s = f x s \<bind> foldM_opt f xs"

lemma foldM_opt_mono [partial_function_mono]:
  assumes "\<And>x s. mono_option (\<lambda>f. B f x s)"
  shows "mono_option (\<lambda>f. foldM_opt (B f) xs s)"
proof (induction xs arbitrary: s)
  case Nil
  show ?case by (simp add: option.const_mono)
next
  case (Cons x xs)
  show ?case
    unfolding foldM_opt.simps
    by (rule bind_mono) (rule assms, rule Cons.IH)
qed

text \<open>The overload of \<^verbatim>\<open>LocalToGlobal\<close> for a \<^verbatim>\<open>stg_point3_t\<close>.\<close>

definition LocalToGlobal_point ::
    "StgWorld \<Rightarrow> ptr \<Rightarrow> stg_point3_t \<Rightarrow> (stg_point3_t \<times> StgWorld) option" where
  "LocalToGlobal_point w this point =
     do {
       let p = \<lparr>pose_x = pt3_x point, pose_y = pt3_y point, pose_z = pt3_z point, pose_a = 0\<rparr>;
       (p', w1) \<leftarrow> LocalToGlobal w this p;
       Some (point\<lparr>pt3_x := pose_x p', pt3_y := pose_y p', pt3_z := pose_z p'\<rparr>, w1)
     }"

text \<open>
  A block is reached through its owner: \<open>block w b\<close> is the block that \<open>b\<close> names, and
  \<open>upd_block\<close> writes to it.
\<close>

definition block :: "StgWorld \<Rightarrow> block_ref \<Rightarrow> StgBlock" where
  "block w b = blocks (mem w (fst b)) ! snd b"

definition upd_block :: "StgWorld \<Rightarrow> block_ref \<Rightarrow> (StgBlock \<Rightarrow> StgBlock) \<Rightarrow> StgWorld" where
  "upd_block w b f =
     upd w (fst b) (\<lambda>m. m\<lparr>blocks := (blocks m)[snd b := f (blocks m ! snd b)]\<rparr>)"

text \<open>
  Modelled from the spec: \<^verbatim>\<open>StgWorld::MetersToPixels\<close> is defined outside model.cc.
  Sections 4.2 and 6: metres are converted to pixels at \<^verbatim>\<open>world.ppm\<close>, one pixel being
  \<open>1 / ppm\<close> metres; the product is rounded down to a whole pixel.
\<close>

definition MetersToPixels :: "StgWorld \<Rightarrow> real \<Rightarrow> int" where
  "MetersToPixels w x = \<lfloor>x * ppm w\<rfloor>"

text \<open>
  Modelled from the spec: the integer line rasterizer used by \<^verbatim>\<open>Block::Map\<close> and by the
  raytracer is defined outside model.cc. Sections 4.2 and 4.3: an integer digital differential
  analyzer; 8-connected lines suffice, and both users share one rasterizer. It steps along the
  longer axis and rounds the other coordinate.
\<close>

definition line_pixels :: "pixel \<Rightarrow> pixel \<Rightarrow> pixel list" where
  "line_pixels p q =
     (let dx = fst q - fst p; dy = snd q - snd p; n = max \<bar>dx\<bar> \<bar>dy\<bar>
      in if n = 0 then [p]
         else map (\<lambda>i. (fst p + (2 * i * dx + n) div (2 * n), snd p + (2 * i * dy + n) div (2 * n)))
                  [0..n])"

text \<open>
  Modelled from the spec: the polygon rasterizer \<^verbatim>\<open>stg_polygon_3d\<close> is defined outside
  model.cc. Section 4.2: it walks each polygon edge, from every vertex to the next and from the
  last back to the first, with the line rasterizer, and calls the function it is given for
  every pixel crossed. \<open>polygon_pixels\<close> lists the pixels in the order of the calls.
\<close>

definition polygon_pixels :: "pixel list \<Rightarrow> pixel list" where
  "polygon_pixels vs =
     concat (map (\<lambda>i. line_pixels (vs ! i) (vs ! ((i + 1) mod length vs))) [0..<length vs])"

definition stg_polygon_3d ::
    "pixel list \<Rightarrow> (pixel \<Rightarrow> StgWorld \<Rightarrow> StgWorld) \<Rightarrow> StgWorld \<Rightarrow> StgWorld" where
  "stg_polygon_3d vs func w = fold func (polygon_pixels vs) w"

text \<open>
  \<^verbatim>\<open>StgBlock::RecordRenderPoint\<close> appends a handle to the block's \<^verbatim>\<open>rendered_points\<close>.
\<close>

definition RecordRenderPoint ::
    "StgWorld \<Rightarrow> block_ref \<Rightarrow> pixel \<Rightarrow> nat \<Rightarrow> counter \<Rightarrow> counter \<Rightarrow> StgWorld" where
  "RecordRenderPoint w b hd_ptr lnk c1 c2 =
     (let el = \<lparr>head = hd_ptr, link = lnk, counter1 = c1, counter2 = c2\<rparr>
      in upd_block w b (\<lambda>B. B\<lparr>rendered_points := rendered_points B @ [el]\<rparr>))"

text \<open>
  Modelled from the spec: \<^verbatim>\<open>StgWorld::AddBlockPixel\<close> and the grid of regions are defined
  outside model.cc. Section 4.3: the world is tiled into superregions, each into regions, each
  into pixels; the sizes used here are the ones the section gives as examples (regions of
  32 x 32 pixels, superregions of 1024 x 1024 pixels). \<^verbatim>\<open>AddBlockPixel\<close> inserts the block
  at the head of the pixel's list, in a newly allocated cell, increments the counters of the
  region and of the superregion, and hands the block the handle: the list head, the inserted
  cell and the two counters.
\<close>

definition region_of :: "pixel \<Rightarrow> pixel" where
  "region_of c = (fst c div 32, snd c div 32)"

definition superregion_of :: "pixel \<Rightarrow> pixel" where
  "superregion_of c = (fst c div 1024, snd c div 1024)"

definition AddBlockPixel :: "StgWorld \<Rightarrow> pixel \<Rightarrow> block_ref \<Rightarrow> StgWorld" where
  "AddBlockPixel w c b =
     (let lnk = next_link w;
          c1 = region_counter (region_of c);
          c2 = superregion_counter (superregion_of c);
          w1 = w\<lparr>index := \<lparr>cell = c, addr = lnk, blk = b\<rparr> # index w, next_link := lnk + 1\<rparr>;
          w2 = w1\<lparr>counters := (counters w1)(c1 := counters w1 c1 + 1)\<rparr>;
          w3 = w2\<lparr>counters := (counters w2)(c2 := counters w2 c2 + 1)\<rparr>
      in RecordRenderPoint w3 b c lnk c1 c2)"

text \<open>
  The vertex loop of \<^verbatim>\<open>StgBlock::Map\<close>, for the points still to be visited: every vertex
  is placed at height \<^verbatim>\<open>zmin\<close>, transformed by the owner's \<^verbatim>\<open>LocalToGlobal\<close> and converted
  to pixels. The source writes the pixels one by one into the array
  \<^verbatim>\<open>pts_global_pixels\<close>, which has an element for every point; the loop here returns them
  as a list, together with the last value assigned to the local variable \<^verbatim>\<open>global\<close>, which
  the source reads after the loop.
\<close>

fun map_points ::
    "StgWorld \<Rightarrow> ptr \<Rightarrow> real \<Rightarrow> stg_point_t list \<Rightarrow> stg_point3_t
       \<Rightarrow> (pixel list \<times> stg_point3_t \<times> StgWorld) option" where
  "map_points w this z [] global = Some ([], global, w)"
| "map_points w this z (v # vs) global =
     do {
       let local = \<lparr>pt3_x = pt_x v, pt3_y = pt_y v, pt3_z = z\<rparr>;
       (global, w1) \<leftarrow> LocalToGlobal_point w this local;
       let px = (MetersToPixels w1 (pt3_x global), MetersToPixels w1 (pt3_y global));
       (pxs, global, w2) \<leftarrow> map_points w1 this z vs global;
       Some (px # pxs, global, w2)
     }"

text \<open>
  \<^verbatim>\<open>StgBlock::Map\<close>: the vertex loop, the global vertical bounds taken from the last
  vertex, and the polygon rasterizer with \<^verbatim>\<open>AddBlockPixel\<close>. The variable \<^verbatim>\<open>global\<close>
  is not initialised: for a block without points, which Section 4.2 calls illegal, the bounds
  stored are indeterminate, and the model leaves them unspecified.
\<close>

definition Block_Map :: "StgWorld \<Rightarrow> block_ref \<Rightarrow> StgWorld option" where
  "Block_Map w b =
     do {
       (pixels, global, w1) \<leftarrow>
          map_points w (fst b) (zmin (block w b)) (pts (block w b)) undefined;
       let w2 = upd_block w1 b (\<lambda>B. B\<lparr>pts_global_pixels := pixels\<rparr>);
       let w3 = upd_block w2 b (\<lambda>B. B\<lparr>global_zmin := pt3_z global\<rparr>);
       let w4 = upd_block w3 b (\<lambda>B. B\<lparr>global_zmax := pt3_z global + (zmax B - zmin B)\<rparr>);
       Some (stg_polygon_3d (pts_global_pixels (block w4 b)) (\<lambda>c w'. AddBlockPixel w' c b) w4)
     }"

text \<open>
  \<^verbatim>\<open>g_slist_delete_link\<close> of the GLib library removes a cell from a list; here the list is
  the one of pixel \<open>hd_ptr\<close>.
\<close>

definition g_slist_delete_link :: "index_entry list \<Rightarrow> pixel \<Rightarrow> nat \<Rightarrow> index_entry list" where
  "g_slist_delete_link cells hd_ptr lnk = filter (\<lambda>e. \<not> (cell e = hd_ptr \<and> addr e = lnk)) cells"

text \<open>
  One pass of the loop of \<^verbatim>\<open>StgBlock::UnMap\<close>, for the handle \<open>pt\<close>: the cell is taken out
  of its list and the two counters are decremented.
\<close>

definition UnMap_point :: "stg_list_entry_t \<Rightarrow> StgWorld \<Rightarrow> StgWorld" where
  "UnMap_point pt w =
     (let w1 = w\<lparr>index := g_slist_delete_link (index w) (head pt) (link pt)\<rparr>;
          w2 = w1\<lparr>counters := (counters w1)(counter1 pt := counters w1 (counter1 pt) - 1)\<rparr>
      in w2\<lparr>counters := (counters w2)(counter2 pt := counters w2 (counter2 pt) - 1)\<rparr>)"

text \<open>
  \<^verbatim>\<open>StgBlock::UnMap\<close>: the loop over the recorded handles, after which the handles are
  forgotten.
\<close>

definition Block_UnMap :: "StgWorld \<Rightarrow> block_ref \<Rightarrow> StgWorld" where
  "Block_UnMap w b =
     (let w1 = fold UnMap_point (rendered_points (block w b)) w
      in upd_block w1 b (\<lambda>B. B\<lparr>rendered_points := []\<rparr>))"

text \<open>A block predicate receives the block and the requesting model, and may read the world.\<close>

type_synonym stg_block_match_func_t = "StgWorld \<Rightarrow> block_ref \<Rightarrow> ptr \<Rightarrow> bool"

text \<open>
  Modelled from the spec: \<^verbatim>\<open>StgWorld::Raytrace\<close> is defined outside model.cc.
  Section 4.3: the ray walks the rasterizer from the origin pixel along the bearing up to the
  range \<open>rng\<close>; at each pixel the block list is scanned; a block is skipped when its owner is the
  requester, or (with the Z test) when the ray's Z is outside the block's global Z band, or when
  the predicate rejects it; the first block accepted ends the ray; without a hit the sample has
  no block. Of the sample only the block is kept. The world is taken to be unbounded, and
  regions are not skipped: the counters only save the scan of lists that are empty.
\<close>

definition World_Raytrace ::
    "StgWorld \<Rightarrow> stg_pose_t \<Rightarrow> real \<Rightarrow> stg_block_match_func_t \<Rightarrow> ptr \<Rightarrow> bool \<Rightarrow> block_ref option" where
  "World_Raytrace w origin rng func finder ztest =
     (let p0 = (MetersToPixels w (pose_x origin), MetersToPixels w (pose_y origin));
          p1 = (MetersToPixels w (pose_x origin + rng * cos (pose_a origin)),
                MetersToPixels w (pose_y origin + rng * sin (pose_a origin)));
          seen = concat (map (\<lambda>c. filter (\<lambda>e. cell e = c) (index w)) (line_pixels p0 p1))
      in map_option blk
           (find (\<lambda>e. fst (blk e) \<noteq> finder
                      \<and> (ztest \<longrightarrow> global_zmin (block w (blk e)) \<le> pose_z origin
                                   \<and> pose_z origin \<le> global_zmax (block w (blk e)))
                      \<and> func w (blk e) finder) seen))"

subsection \<open>Mapping a model and its subtree\<close>

text \<open>
  \<^verbatim>\<open>Map\<close> and \<^verbatim>\<open>UnMap\<close> loop over the model's blocks; the variants with children
  recurse into the child list, \<^verbatim>\<open>NeedRedraw\<close> into the parent.
\<close>

definition Map :: "StgWorld \<Rightarrow> ptr \<Rightarrow> StgWorld option" where
  "Map w this = foldM_opt (\<lambda>k w'. Block_Map w' (this, k)) [0..<length (blocks (mem w this))] w"

definition UnMap :: "StgWorld \<Rightarrow> ptr \<Rightarrow> StgWorld" where
  "UnMap w this = fold (\<lambda>k w'. Block_UnMap w' (this, k)) [0..<length (blocks (mem w this))] w"

partial_function (option) MapWithChildren :: "StgWorld \<Rightarrow> ptr \<Rightarrow> StgWorld option" where
  "MapWithChildren w this =
     Map w this \<bind> (\<lambda>w1. foldM_opt (\<lambda>c w'. MapWithChildren w' c) (children (mem w1 this)) w1)"

partial_function (option) UnMapWithChildren :: "StgWorld \<Rightarrow> ptr \<Rightarrow> StgWorld option" where
  "UnMapWithChildren w this =
     (let w1 = UnMap w this
      in foldM_opt (\<lambda>c w'. UnMapWithChildren w' c) (children (mem w1 this)) w1)"

partial_function (option) NeedRedraw :: "StgWorld \<Rightarrow> ptr \<Rightarrow> StgWorld option" where
  "NeedRedraw w this =
     (let w1 = upd w this (\<lambda>m. m\<lparr>rebuild_displaylist := True\<rparr>)
      in case parent (mem w1 this) of
           Some p \<Rightarrow> NeedRedraw w1 p
         | None \<Rightarrow> Some w1)"

partial_function (option) GPoseDirtyTree :: "StgWorld \<Rightarrow> ptr \<Rightarrow> StgWorld option" where
  "GPoseDirtyTree w this =
     (let w1 = upd w this (\<lambda>m. m\<lparr>gpose_dirty := True\<rparr>)
      in foldM_opt (\<lambda>c w'. GPoseDirtyTree w' c) (children (mem w1 this)) w1)"

subsection \<open>Pose, stall, collision test and the kinematic update\<close>

text \<open>
  \<^verbatim>\<open>memcmp\<close> of the C library, on two poses: the representations of the four numbers
  are compared byte by byte. A real number has one representation, so the result is 0 exactly
  when the poses are equal; of the result only whether it is 0 is used.
\<close>

definition memcmp_pose :: "stg_pose_t \<Rightarrow> stg_pose_t \<Rightarrow> int" where
  "memcmp_pose p1 p2 = (if p1 = p2 then 0 else 1)"

text \<open>
  \<^verbatim>\<open>SetPose\<close> compares the new pose with the old one; the heading is normalised twice in
  the source, once in the argument and once in the stored pose.
\<close>

definition SetPose :: "StgWorld \<Rightarrow> ptr \<Rightarrow> stg_pose_t \<Rightarrow> StgWorld option" where
  "SetPose w this p =
     do {
       w5 \<leftarrow> (if memcmp_pose (pose (mem w this)) p \<noteq> 0
              then do {
                w1 \<leftarrow> UnMapWithChildren w this;
                let p1 = p\<lparr>pose_a := normalize (pose_a p)\<rparr>;
                let w2 = upd w1 this (\<lambda>m. m\<lparr>pose := p1\<rparr>);
                let w2 = upd w2 this (\<lambda>m. m\<lparr>pose := (pose m)\<lparr>pose_a := normalize (pose_a (pose m))\<rparr>\<rparr>);
                w3 \<leftarrow> NeedRedraw w2 this;
                w4 \<leftarrow> GPoseDirtyTree w3 this;
                MapWithChildren w4 this
              }
              else Some w);
       Some (CallCallbacks w5 this cb_pose)
     }"

definition SetStall :: "StgWorld \<Rightarrow> ptr \<Rightarrow> bool \<Rightarrow> StgWorld" where
  "SetStall w this b = CallCallbacks (upd w this (\<lambda>m. m\<lparr>stall := b\<rparr>)) this cb_stall"

text \<open>
  The model's \<^verbatim>\<open>Raytrace\<close> for a pose in the model's frame: it hands the world's raytracer
  the pose in global coordinates and the model itself as the requester.
\<close>

definition Raytrace ::
    "StgWorld \<Rightarrow> ptr \<Rightarrow> stg_pose_t \<Rightarrow> real \<Rightarrow> stg_block_match_func_t \<Rightarrow> bool
       \<Rightarrow> (block_ref option \<times> StgWorld) option" where
  "Raytrace w this p rng func ztest =
     do {
       (g, w1) \<leftarrow> LocalToGlobal w this p;
       Some (World_Raytrace w1 g rng func this ztest, w1)
     }"

definition collision_match :: stg_block_match_func_t where
  "collision_match w testblock finder =
     (fst testblock \<noteq> finder \<and> obstacle_return (mem w (fst testblock)) \<noteq> 0)"

text \<open>
  One pass of the inner loop of \<^verbatim>\<open>TestCollision\<close>: edge \<open>p\<close> of a block with points \<open>ps\<close>.
  The state is the pair of \<^verbatim>\<open>hitmod\<close> and the world.
\<close>

definition edge_step ::
    "ptr \<Rightarrow> stg_pose_t \<Rightarrow> stg_point_t list \<Rightarrow> nat \<Rightarrow> ptr option \<times> StgWorld
       \<Rightarrow> (ptr option \<times> StgWorld) option" where
  "edge_step this posedelta ps p s =
     (let pt1 = ps ! p;
          pt2 = ps ! ((p + 1) mod length ps);
          dx = pt_x pt2 - pt_x pt1;
          dy = pt_y pt2 - pt_y pt1;
          rng = hypot dx dy;
          bearing = atan2 dy dx;
          edgepose = \<lparr>pose_x = pt_x pt1, pose_y = pt_y pt1, pose_z = 0, pose_a = bearing\<rparr>
      in do {
           (sample, w1) \<leftarrow> Raytrace (snd s) this (pose_sum posedelta edgepose) rng
                              collision_match True;
           Some (case sample of Some b \<Rightarrow> Some (fst b) | None \<Rightarrow> fst s, w1)
         })"

definition TestCollision ::
    "StgWorld \<Rightarrow> ptr \<Rightarrow> stg_pose_t \<Rightarrow> (ptr option \<times> StgWorld) option" where
  "TestCollision w this posedelta =
     (if blocks (mem w this) = [] then Some (None, w)
      else do {
        let w1 = UnMap w this;
        (hitmod, w2) \<leftarrow>
          foldM_opt (\<lambda>b. foldM_opt (edge_step this posedelta (pts b)) [0..<length (pts b)])
            (blocks (mem w1 this)) (None, w1);
        w3 \<leftarrow> Map w2 this;
        Some (hitmod, w3)
      })"

text \<open>The trail checkpoint at the head of \<^verbatim>\<open>UpdatePose\<close>.\<close>

definition trail_checkpoint :: "StgWorld \<Rightarrow> ptr \<Rightarrow> StgWorld" where
  "trail_checkpoint w this =
     (if updates w mod 10 = 0
      then (let checkpoint = \<lparr>tr_pose = pose (mem w this), tr_color = color (mem w this),
                                tr_time = sim_time w\<rparr>;
                w1 = (if 100 < length (trail (mem w this))
                      then upd w this (\<lambda>m. m\<lparr>trail := tl (trail m)\<rparr>)
                      else w)
            in upd w1 this (\<lambda>m. m\<lparr>trail := trail m @ [checkpoint]\<rparr>))
      else w)"

text \<open>
  The change of pose due to the velocity, as \<^verbatim>\<open>UpdatePose\<close> computes it: the interval is
  converted from microseconds to seconds, and \<^verbatim>\<open>p.z\<close> is set to 0.
\<close>

definition pose_delta :: "StgWorld \<Rightarrow> ptr \<Rightarrow> stg_pose_t" where
  "pose_delta w this =
     (let interval = real (interval_sim w) / 1000000
      in \<lparr>pose_x = pose_x (velocity (mem w this)) * interval,
          pose_y = pose_y (velocity (mem w this)) * interval,
          pose_z = 0,
          pose_a = pose_a (velocity (mem w this)) * interval\<rparr>)"

definition UpdatePose :: "StgWorld \<Rightarrow> ptr \<Rightarrow> StgWorld option" where
  "UpdatePose w this =
     (if disabled (mem w this) then Some w
      else do {
        let w1 = trail_checkpoint w this;
        let p = pose_delta w1 this;
        (hitthing, w2) \<leftarrow> TestCollision w1 this p;
        if hitthing \<noteq> None then Some (SetStall w2 this True)
        else do {
          let w3 = SetStall w2 this False;
          let newpose = pose_sum (pose (mem w3 this)) p;
          SetPose w3 this newpose
        }
      })"

subsection \<open>Subscriptions\<close>

text \<open>
  \<^verbatim>\<open>subs\<close> and \<^verbatim>\<open>total_subs\<close> are C integers, modelled as mathematical integers;
  the statements about them carry the bounds of a 32-bit \<^verbatim>\<open>int\<close> where a call would leave
  that range.
\<close>

definition Startup :: "StgWorld \<Rightarrow> ptr \<Rightarrow> StgWorld" where
  "Startup w this =
     (let w1 = (if initfunc (mem w this) then w\<lparr>events := events w @ [InitFunc this]\<rparr> else w);
          w2 = StartUpdatingModel w1 this
      in CallCallbacks w2 this startup_hook)"

definition Shutdown :: "StgWorld \<Rightarrow> ptr \<Rightarrow> StgWorld" where
  "Shutdown w this = CallCallbacks (StopUpdatingModel w this) this shutdown_hook"

definition Subscribe :: "StgWorld \<Rightarrow> ptr \<Rightarrow> StgWorld" where
  "Subscribe w this =
     (let w1 = upd w this (\<lambda>m. m\<lparr>subs := subs m + 1\<rparr>);
          w2 = w1\<lparr>total_subs := total_subs w1 + 1\<rparr>
      in if subs (mem w2 this) = 1 then Startup w2 this else w2)"

definition Unsubscribe :: "StgWorld \<Rightarrow> ptr \<Rightarrow> StgWorld" where
  "Unsubscribe w this =
     (let w1 = upd w this (\<lambda>m. m\<lparr>subs := subs m - 1\<rparr>);
          w2 = w1\<lparr>total_subs := total_subs w1 - 1\<rparr>
      in if subs (mem w2 this) < 1 then Shutdown w2 this else w2)"

subsection \<open>Velocity\<close>

definition velocity_is_nonzero :: "stg_velocity_t \<Rightarrow> bool" where
  "velocity_is_nonzero v = (pose_x v \<noteq> 0 \<or> pose_y v \<noteq> 0 \<or> pose_z v \<noteq> 0 \<or> pose_a v \<noteq> 0)"

definition SetVelocity :: "StgWorld \<Rightarrow> ptr \<Rightarrow> stg_velocity_t \<Rightarrow> StgWorld" where
  "SetVelocity w this vel =
     (let w1 = upd w this (\<lambda>m. m\<lparr>velocity := vel\<rparr>);
          w2 = (if \<not> on_velocity_list (mem w1 this) \<and> velocity_is_nonzero (velocity (mem w1 this))
                then upd (w1\<lparr>velocity_list := this # velocity_list w1\<rparr>) this
                       (\<lambda>m. m\<lparr>on_velocity_list := True\<rparr>)
                else w1);
          w3 = (if on_velocity_list (mem w2 this) \<and> \<not> velocity_is_nonzero (velocity (mem w2 this))
                then upd (w2\<lparr>velocity_list := remove1 this (velocity_list w2)\<rparr>) this
                       (\<lambda>m. m\<lparr>on_velocity_list := False\<rparr>)
                else w2)
      in CallCallbacks w3 this cb_velocity)"

text \<open>
  The flag \<^verbatim>\<open>on_velocity_list\<close> mirrors membership in the world's list; the list holds
  every model at most once. The constructor establishes this (flag false, list untouched), and
  \<^verbatim>\<open>SetVelocity\<close> is the only function of model.cc that writes either.
\<close>

definition velocity_list_ok :: "StgWorld \<Rightarrow> bool" where
  "velocity_list_ok w =
     (distinct (velocity_list w) \<and> (\<forall>m. on_velocity_list (mem w m) = (m \<in> set (velocity_list w))))"

subsection \<open>Construction\<close>

text \<open>\<^verbatim>\<open>new_pose\<close> builds a pose from its four components.\<close>

definition new_pose :: "real \<Rightarrow> real \<Rightarrow> real \<Rightarrow> real \<Rightarrow> stg_pose_t" where
  "new_pose px py pz pa = \<lparr>pose_x = px, pose_y = py, pose_z = pz, pose_a = pa\<rparr>"

text \<open>
  The constructor of \<^verbatim>\<open>StgBlock\<close> copies the points, allocates the array of pixel
  vertices, whose contents are not set until the block is mapped (here it starts empty),
  starts with no handles, and flags the global vertical bounds as unset with -1.
\<close>

definition StgBlock_init :: "stg_point_t list \<Rightarrow> real \<Rightarrow> real \<Rightarrow> StgBlock" where
  "StgBlock_init ps z0 z1 =
     \<lparr>pts = ps, pts_global_pixels = [], zmin = z0, zmax = z1, rendered_points = [],
      global_zmin = - 1, global_zmax = - 1\<rparr>"

text \<open>
  The block that \<^verbatim>\<open>AddBlockRect(x, y, width, height)\<close> adds: a rectangle between the
  heights 0 and 1.
\<close>

definition rect_block :: "real \<Rightarrow> real \<Rightarrow> real \<Rightarrow> real \<Rightarrow> StgBlock" where
  "rect_block bx by width height =
     StgBlock_init [\<lparr>pt_x = bx, pt_y = by\<rparr>, \<lparr>pt_x = bx + width, pt_y = by\<rparr>,
                    \<lparr>pt_x = bx + width, pt_y = by + height\<rparr>, \<lparr>pt_x = bx, pt_y = by + height\<rparr>]
       0 1"

text \<open>
  The fields the constructor sets, for a model with the given parent pointer; the body is the
  square \<^verbatim>\<open>AddBlockRect(-0.5, -0.5, 1, 1)\<close>.
\<close>

definition StgModel_init :: "ptr option \<Rightarrow> StgModel" where
  "StgModel_init par =
     \<lparr>parent = par, children = [], pose = new_pose 0 0 0 0, global_pose = new_pose 0 0 0 0,
      gpose_dirty = True,
      geom = \<lparr>geom_pose = new_pose 0 0 0 0, geom_size = \<lparr>size_x = 0.1, size_y = 0.1, size_z = 0.1\<rparr>\<rparr>,
      velocity = new_pose 0 0 0 0, on_velocity_list = False, stall = False, disabled = False,
      subs = 0, blocks = [rect_block (- 0.5) (- 0.5) 1 1], trail = [], color = 0xFFFF0000,
      obstacle_return = 1, rebuild_displaylist = True, initfunc = False\<rparr>"

text \<open>
  A world in which nothing is mapped, listed or subscribed; every address holds a model as
  the constructor leaves it. The tick length and the resolution are placeholders that the
  scenarios set.
\<close>

definition empty_world :: StgWorld where
  "empty_world =
     \<lparr>mem = (\<lambda>_. StgModel_init None), velocity_list = [], update_list = [], updates = 0,
      sim_time = 0, interval_sim = 100000, total_subs = 0, ppm = 50, index = [],
      counters = (\<lambda>_. 0), next_link = 0, events = []\<rparr>"

subsection \<open>Predicates and closed forms used in the statements\<close>

text \<open>
  \<open>uncache\<close> forgets the cached global pose, its dirty flag and the redraw flag;
  \<open>cache_only w w'\<close> says that \<open>w'\<close> differs from \<open>w\<close> in those three fields at most.
  \<open>unrender\<close> forgets what mapping writes into a block, and \<open>cache_index_only\<close> allows the
  spatial index, its counters, the allocator and those fields of the blocks to differ as well.
\<close>

definition uncache :: "StgModel \<Rightarrow> StgModel" where
  "uncache m = m\<lparr>global_pose := new_pose 0 0 0 0, gpose_dirty := False,
                 rebuild_displaylist := False\<rparr>"

definition cache_only :: "StgWorld \<Rightarrow> StgWorld \<Rightarrow> bool" where
  "cache_only w w' = (w'\<lparr>mem := mem w\<rparr> = w \<and> (\<forall>n. uncache (mem w' n) = uncache (mem w n)))"

definition unrender :: "StgBlock \<Rightarrow> StgBlock" where
  "unrender B = B\<lparr>pts_global_pixels := [], rendered_points := [], global_zmin := 0,
                  global_zmax := 0\<rparr>"

definition unmapped :: "StgModel \<Rightarrow> StgModel" where
  "unmapped m = (uncache m)\<lparr>blocks := map unrender (blocks m)\<rparr>"

definition cache_index_only :: "StgWorld \<Rightarrow> StgWorld \<Rightarrow> bool" where
  "cache_index_only w w' =
     (w'\<lparr>mem := mem w, index := index w, counters := counters w, next_link := next_link w\<rparr> = w
      \<and> (\<forall>n. unmapped (mem w' n) = unmapped (mem w n)))"

text \<open>The global pose of \<open>m\<close> along its chain of ancestors \<open>ps\<close>, written out.\<close>

fun gpose :: "StgWorld \<Rightarrow> ptr \<Rightarrow> ptr list \<Rightarrow> stg_pose_t" where
  "gpose w m [] = pose (mem w m)"
| "gpose w m (p # ps) =
     (pose_sum (gpose w p ps) (pose (mem w m)))
       \<lparr>pose_z := pose_z (pose_sum (gpose w p ps) (pose (mem w m)))
                   + size_z (geom_size (geom (mem w p)))\<rparr>"

text \<open>
  The frame in which a model's blocks live: its global pose composed with the offset of its
  geometry, as \<^verbatim>\<open>LocalToGlobal\<close> composes them; and the pixel of a vertex in that frame.
\<close>

definition body_frame :: "StgWorld \<Rightarrow> ptr \<Rightarrow> ptr list \<Rightarrow> stg_pose_t" where
  "body_frame w m ps = pose_sum (gpose w m ps) (geom_pose (geom (mem w m)))"

definition vertex_pixel :: "StgWorld \<Rightarrow> ptr \<Rightarrow> ptr list \<Rightarrow> stg_point_t \<Rightarrow> pixel" where
  "vertex_pixel w m ps v =
     (let g = pose_sum (body_frame w m ps) \<lparr>pose_x = pt_x v, pose_y = pt_y v, pose_z = 0, pose_a = 0\<rparr>
      in (MetersToPixels w (pose_x g), MetersToPixels w (pose_y g)))"

text \<open>
  \<open>footprint w b\<close> lists the pixels at which the index holds a cell for block \<open>b\<close>, in the
  order of insertion. Block \<open>b\<close> is mapped in \<open>w\<close> when the block and the index hold what
  \<^verbatim>\<open>StgBlock::Map\<close> computes from the poses as they are in \<open>w\<close>: the pixel vertices and the
  vertical bounds are the ones the vertex loop yields, and the footprint is the rasterized
  outline of those pixel vertices.
\<close>

definition footprint :: "StgWorld \<Rightarrow> block_ref \<Rightarrow> pixel list" where
  "footprint w b = rev (map cell (filter (\<lambda>e. blk e = b) (index w)))"

definition block_mapped :: "StgWorld \<Rightarrow> block_ref \<Rightarrow> bool" where
  "block_mapped w b =
     (case map_points w (fst b) (zmin (block w b)) (pts (block w b)) undefined of
        None \<Rightarrow> False
      | Some (pixels, global, w') \<Rightarrow>
          pts_global_pixels (block w b) = pixels
          \<and> (pts (block w b) \<noteq> [] \<longrightarrow>
               global_zmin (block w b) = pt3_z global
               \<and> global_zmax (block w b) = pt3_z global + (zmax (block w b) - zmin (block w b)))
          \<and> footprint w b = polygon_pixels pixels)"

text \<open>
  The index is well formed when its cells have distinct addresses that the allocator has
  handed out and name blocks that exist, every block holds exactly the handles of its own
  cells, oldest first, and every counter holds the number of cells in its region or
  superregion. The constructors establish this, and mapping and unmapping keep it.
\<close>

definition handle_of :: "index_entry \<Rightarrow> stg_list_entry_t" where
  "handle_of e =
     \<lparr>head = cell e, link = addr e, counter1 = region_counter (region_of (cell e)),
      counter2 = superregion_counter (superregion_of (cell e))\<rparr>"

definition cells_ok :: "StgWorld \<Rightarrow> bool" where
  "cells_ok w =
     (distinct (map addr (index w))
      \<and> (\<forall>e \<in> set (index w). addr e < next_link w
             \<and> snd (blk e) < length (blocks (mem w (fst (blk e))))))"

definition handles_ok :: "StgWorld \<Rightarrow> bool" where
  "handles_ok w =
     (\<forall>m k. k < length (blocks (mem w m)) \<longrightarrow>
          rendered_points (block w (m, k))
            = map handle_of (rev (filter (\<lambda>e. blk e = (m, k)) (index w))))"

definition counters_ok :: "StgWorld \<Rightarrow> bool" where
  "counters_ok w =
     (\<forall>r. counters w (region_counter r)
             = of_nat (length (filter (\<lambda>e. region_of (cell e) = r) (index w)))
          \<and> counters w (superregion_counter r)
             = of_nat (length (filter (\<lambda>e. superregion_of (cell e) = r) (index w))))"

definition index_ok :: "StgWorld \<Rightarrow> bool" where
  "index_ok w = (cells_ok w \<and> handles_ok w \<and> counters_ok w)"


text \<open>
  \<open>kept_outside P w w'\<close>: going from \<open>w\<close> to \<open>w'\<close>, the blocks that \<open>P\<close> does not
  single out are as they were, and so are their cells in the index, in the same order.
\<close>

definition kept_outside :: "(block_ref \<Rightarrow> bool) \<Rightarrow> StgWorld \<Rightarrow> StgWorld \<Rightarrow> bool" where
  "kept_outside P w w' =
     (filter (\<lambda>e. \<not> P (blk e)) (index w') = filter (\<lambda>e. \<not> P (blk e)) (index w)
      \<and> (\<forall>b. \<not> P b \<longrightarrow> block w' b = block w b)
      \<and> (\<forall>n. length (blocks (mem w' n)) = length (blocks (mem w n))))"

text \<open>
  What mapping writes, as functions of the poses: \<open>new_cells l b cs\<close> are the cells that
  rasterizing the pixels \<open>cs\<close> for block \<open>b\<close> inserts when the allocator stands at \<open>l\<close>, the most
  recent first; \<open>mapped_at w m ps k\<close> says that block \<open>k\<close> of model \<open>m\<close>, whose chain of
  ancestors is \<open>ps\<close>, holds the pixel vertices and the vertical bounds that follow from the
  poses in \<open>w\<close>, and that its footprint is their rasterized outline.
\<close>

fun new_cells :: "nat \<Rightarrow> block_ref \<Rightarrow> pixel list \<Rightarrow> index_entry list" where
  "new_cells l b [] = []"
| "new_cells l b (c # cs) = new_cells (Suc l) b cs @ [\<lparr>cell = c, addr = l, blk = b\<rparr>]"

definition mapped_at :: "StgWorld \<Rightarrow> ptr \<Rightarrow> ptr list \<Rightarrow> nat \<Rightarrow> bool" where
  "mapped_at w m ps k =
     (pts_global_pixels (block w (m, k)) = map (vertex_pixel w m ps) (pts (block w (m, k)))
      \<and> (pts (block w (m, k)) \<noteq> [] \<longrightarrow>
           global_zmin (block w (m, k)) = pose_z (body_frame w m ps) + zmin (block w (m, k))
           \<and> global_zmax (block w (m, k)) = pose_z (body_frame w m ps) + zmax (block w (m, k)))
      \<and> footprint w (m, k) = polygon_pixels (map (vertex_pixel w m ps) (pts (block w (m, k)))))"

text \<open>
  \<open>render w b pixels gz\<close> is the world in which block \<open>b\<close> has been given the pixel vertices
  \<open>pixels\<close> and the lower bound \<open>gz\<close> and has been rasterized into the index: what
  \<^verbatim>\<open>StgBlock::Map\<close> does after its vertex loop.
\<close>

definition render :: "StgWorld \<Rightarrow> block_ref \<Rightarrow> pixel list \<Rightarrow> real \<Rightarrow> StgWorld" where
  "render w b pixels gz =
     stg_polygon_3d pixels (\<lambda>c w'. AddBlockPixel w' c b)
       (upd_block w b (\<lambda>B. B\<lparr>pts_global_pixels := pixels, global_zmin := gz,
                              global_zmax := gz + (zmax B - zmin B)\<rparr>))"

text \<open>
  The models below a model form a tree when the child lists are finite in depth and agree
  with the parent pointers. \<open>is_subtree w t\<close> says that \<open>t\<close> is that tree for its root;
  \<open>nodes\<close> lists it in the order of the recursive calls, \<open>nodes_chains\<close> pairs every node with
  its chain of ancestors, given the chain of the root.
\<close>

datatype ctree = CNode ptr "ctree list"

fun root :: "ctree \<Rightarrow> ptr" where
  "root (CNode m cs) = m"

fun nodes :: "ctree \<Rightarrow> ptr list" where
  "nodes (CNode m cs) = m # concat (map nodes cs)"

fun is_subtree :: "StgWorld \<Rightarrow> ctree \<Rightarrow> bool" where
  "is_subtree w (CNode m cs) =
     (children (mem w m) = map root cs
      \<and> (\<forall>c \<in> set cs. parent (mem w (root c)) = Some m \<and> is_subtree w c))"

fun nodes_chains :: "ptr list \<Rightarrow> ctree \<Rightarrow> (ptr \<times> ptr list) list" where
  "nodes_chains ps (CNode m cs) = (m, ps) # concat (map (nodes_chains (m # ps)) cs)"

definition same_tree :: "StgWorld \<Rightarrow> StgWorld \<Rightarrow> bool" where
  "same_tree w w' =
     (\<forall>n. parent (mem w' n) = parent (mem w n) \<and> children (mem w' n) = children (mem w n))"

definition set_dirty :: "StgWorld \<Rightarrow> ptr \<Rightarrow> StgWorld" where
  "set_dirty w n = upd w n (\<lambda>m. m\<lparr>gpose_dirty := True\<rparr>)"

text \<open>
  The rays of the collision test, as functions of the poses: start pose and length of the ray
  along edge \<open>i\<close> of a polygon, the sample of that ray for model \<open>m\<close> displaced by \<open>posedelta\<close>,
  and the samples of all edges of all blocks in the order of the two loops. \<open>pick\<close> is the
  assignment to \<^verbatim>\<open>hitmod\<close>; \<open>last_hit\<close> and \<open>first_hit\<close> name the owner of the last and of
  the first block hit in a list of samples.
\<close>

definition edge_pose :: "stg_point_t list \<Rightarrow> nat \<Rightarrow> stg_pose_t" where
  "edge_pose vs i =
     (let pt1 = vs ! i; pt2 = vs ! ((i + 1) mod length vs)
      in \<lparr>pose_x = pt_x pt1, pose_y = pt_y pt1, pose_z = 0,
          pose_a = atan2 (pt_y pt2 - pt_y pt1) (pt_x pt2 - pt_x pt1)\<rparr>)"

definition edge_range :: "stg_point_t list \<Rightarrow> nat \<Rightarrow> real" where
  "edge_range vs i =
     (let pt1 = vs ! i; pt2 = vs ! ((i + 1) mod length vs)
      in hypot (pt_x pt2 - pt_x pt1) (pt_y pt2 - pt_y pt1))"

definition edge_hit ::
    "StgWorld \<Rightarrow> ptr \<Rightarrow> ptr list \<Rightarrow> stg_pose_t \<Rightarrow> stg_point_t list \<Rightarrow> nat \<Rightarrow> block_ref option" where
  "edge_hit w m ps posedelta vs i =
     World_Raytrace w (pose_sum (body_frame w m ps) (pose_sum posedelta (edge_pose vs i)))
       (edge_range vs i) collision_match m True"

definition edge_hits ::
    "StgWorld \<Rightarrow> ptr \<Rightarrow> ptr list \<Rightarrow> stg_pose_t \<Rightarrow> block_ref option list" where
  "edge_hits w m ps posedelta =
     concat (map (\<lambda>b. map (edge_hit w m ps posedelta (pts b)) [0..<length (pts b)])
                 (blocks (mem w m)))"

definition pick :: "block_ref option \<Rightarrow> ptr option \<Rightarrow> ptr option" where
  "pick sample hitmod = (case sample of Some b \<Rightarrow> Some (fst b) | None \<Rightarrow> hitmod)"

definition hits :: "block_ref option list \<Rightarrow> block_ref list" where
  "hits hs = concat (map (\<lambda>h. case h of None \<Rightarrow> [] | Some b \<Rightarrow> [b]) hs)"

definition last_hit :: "block_ref option list \<Rightarrow> ptr option" where
  "last_hit hs = (if hits hs = [] then None else Some (fst (last (hits hs))))"

definition first_hit :: "block_ref option list \<Rightarrow> ptr option" where
  "first_hit hs = (if hits hs = [] then None else Some (fst (hd (hits hs))))"

text \<open>
  Modelled from the spec: the world's tick is defined outside model.cc. Section 4.5: a tick
  increments \<^verbatim>\<open>sim_time\<close> by \<^verbatim>\<open>interval_sim\<close> and drives \<^verbatim>\<open>UpdatePose\<close> for the models
  on the velocity list; the update counter that \<^verbatim>\<open>UpdatePose\<close> reads advances by one per
  tick. Here the tick drives one moving model.
\<close>

definition tick :: "StgWorld \<Rightarrow> ptr \<Rightarrow> StgWorld option" where
  "tick w this =
     do {
       w1 \<leftarrow> UpdatePose (w\<lparr>sim_time := sim_time w + interval_sim w\<rparr>) this;
       Some (w1\<lparr>updates := updates w1 + 1\<rparr>)
     }"

text \<open>A run of \<open>n\<close> ticks.\<close>

fun run_ticks :: "nat \<Rightarrow> StgWorld \<Rightarrow> ptr \<Rightarrow> StgWorld option" where
  "run_ticks 0 w this = Some w"
| "run_ticks (Suc n) w this = tick w this \<bind> (\<lambda>w'. run_ticks n w' this)"

text \<open>
  The length of the trail: \<open>trail_step\<close> is the effect of one checkpoint on it, and
  \<open>trail_len n u l\<close> the length after \<open>n\<close> ticks that start at update counter \<open>u\<close> and length \<open>l\<close>.
\<close>

definition trail_step :: "nat \<Rightarrow> nat" where
  "trail_step l = (if 100 < l then l else l + 1)"

fun trail_len :: "nat \<Rightarrow> nat \<Rightarrow> nat \<Rightarrow> nat" where
  "trail_len 0 u l = l"
| "trail_len (Suc n) u l = trail_len n (u + 1) (if u mod 10 = 0 then trail_step l else l)"

text \<open>The update list holds exactly the models with a subscription, each once.\<close>

definition update_list_ok :: "StgWorld \<Rightarrow> bool" where
  "update_list_ok w =
     (distinct (update_list w) \<and> (\<forall>m. (m \<in> set (update_list w)) = (1 \<le> subs (mem w m))))"

subsection \<open>Example worlds\<close>

text \<open>
  Scenario S1: model 2 at pose \<open>(1, 0, 0, pi/2)\<close> with height 0.2, and its child, model 3, at
  local pose \<open>(1, 0, 0, 0)\<close>.
\<close>

definition S1_world :: StgWorld where
  "S1_world = empty_world
     \<lparr>mem := (mem empty_world)
        (2 := (StgModel_init None)
                \<lparr>children := [3], pose := new_pose 1 0 0 (pi / 2),
                 geom := \<lparr>geom_pose = new_pose 0 0 0 0,
                          geom_size = \<lparr>size_x = 0.1, size_y = 0.1, size_z = 0.2\<rparr>\<rparr>\<rparr>,
         3 := (StgModel_init (Some 2))\<lparr>pose := new_pose 1 0 0 0\<rparr>)\<rparr>"

text \<open>Scenario S5: model 4 has an \<^verbatim>\<open>initfunc\<close> and no subscription yet.\<close>

definition S5_world :: StgWorld where
  "S5_world = empty_world\<lparr>mem := (mem empty_world)(4 := (StgModel_init None)\<lparr>initfunc := True\<rparr>)\<rparr>"

text \<open>
  Scenario S2, at 2 pixels per metre and with a tick of one second: model 2 (A) at the origin
  and model 3 (B) at \<open>(2, 0, 0, 0)\<close>, both with the constructor's 1 x 1 square between heights
  0 and 1 and \<^verbatim>\<open>obstacle_return\<close> set. In \<open>S2_mapped\<close> both are mapped, B first;
  \<open>S2_world v\<close> is \<open>S2_mapped\<close> after \<^verbatim>\<open>SetVelocity\<close> gave A the velocity
  \<open>(v, 0, 0, 0)\<close>, and \<open>S2_testing v\<close> is the world in which the collision test of the first
  \<^verbatim>\<open>UpdatePose\<close> sends its rays: after the trail checkpoint, with A unmapped.
\<close>

definition S2_base :: StgWorld where
  "S2_base = empty_world
     \<lparr>mem := (mem empty_world)(3 := (StgModel_init None)\<lparr>pose := new_pose 2 0 0 0\<rparr>),
      interval_sim := 1000000, ppm := 2\<rparr>"

definition S2_mapped :: StgWorld where
  "S2_mapped =
     render (render S2_base (3, 0) [(3, - 1), (5, - 1), (5, 1), (3, 1)] 0)
       (2, 0) [(- 1, - 1), (1, - 1), (1, 1), (- 1, 1)] 0"

definition S2_world :: "real \<Rightarrow> StgWorld" where
  "S2_world v = SetVelocity S2_mapped 2 (new_pose v 0 0 0)"

definition S2_testing :: "real \<Rightarrow> StgWorld" where
  "S2_testing v = UnMap (trail_checkpoint (S2_world v) 2) 2"

text \<open>
  A world for the collision test, at 2 pixels per metre: model 2 is the unit square at the
  origin; models 3 and 4 are small triangles, model 3 inside the pixel in the middle of the
  square's bottom edge, model 4 inside the pixel in the middle of its left edge. All three are
  mapped, model 4 first and model 2 last.
\<close>

definition triangle_block :: StgBlock where
  "triangle_block =
     StgBlock_init [\<lparr>pt_x = - 0.1, pt_y = - 0.1\<rparr>, \<lparr>pt_x = 0.1, pt_y = - 0.1\<rparr>,
                    \<lparr>pt_x = 0, pt_y = 0.1\<rparr>] 0 1"

definition C2_base :: StgWorld where
  "C2_base = empty_world
     \<lparr>mem := (mem empty_world)
        (3 := (StgModel_init None)\<lparr>pose := new_pose 0.25 (- 0.25) 0 0, blocks := [triangle_block]\<rparr>,
         4 := (StgModel_init None)\<lparr>pose := new_pose (- 0.25) 0.25 0 0, blocks := [triangle_block]\<rparr>),
      ppm := 2\<rparr>"

definition C2_world :: StgWorld where
  "C2_world =
     render (render (render C2_base (4, 0) [(- 1, 0), (- 1, 0), (- 1, 0)] 0)
               (3, 0) [(0, - 1), (0, - 1), (0, - 1)] 0)
       (2, 0) [(- 1, - 1), (1, - 1), (1, 1), (- 1, 1)] 0"




section \<open>Properties\<close>

lemma mem_upd [simp]: "mem (upd w this f) = (mem w)(this := f (mem w this))"
  by (simp add: upd_def)

lemma upd_fields [simp]:
  "velocity_list (upd w this f) = velocity_list w"
  "update_list (upd w this f) = update_list w"
  "events (upd w this f) = events w"
  "total_subs (upd w this f) = total_subs w"
  "index (upd w this f) = index w"
  "counters (upd w this f) = counters w"
  "next_link (upd w this f) = next_link w"
  "ppm (upd w this f) = ppm w"
  "updates (upd w this f) = updates w"
  "sim_time (upd w this f) = sim_time w"
  "interval_sim (upd w this f) = interval_sim w"
  by (simp_all add: upd_def)

subsection \<open>Frame of the global-pose computation\<close>

lemma cache_only_refl: "cache_only w w"
  by (simp add: cache_only_def)

lemma cache_only_trans:
  assumes "cache_only w w1" "cache_only w1 w2"
  shows "cache_only w w2"
proof -
  have "w2\<lparr>mem := mem w\<rparr> = (w2\<lparr>mem := mem w1\<rparr>)\<lparr>mem := mem w\<rparr>" by simp
  with assms show ?thesis by (simp add: cache_only_def)
qed

lemma cache_only_upd:
  "cache_only w w1 \<Longrightarrow> (\<And>m. uncache (f m) = uncache m) \<Longrightarrow> cache_only w (upd w1 this f)"
  by (rule cache_only_trans [of w w1]) (simp_all add: cache_only_def upd_def)

lemma uncache_simps [simp]:
  "uncache (m\<lparr>global_pose := g\<rparr>) = uncache m"
  "uncache (m\<lparr>gpose_dirty := b\<rparr>) = uncache m"
  "uncache (m\<lparr>rebuild_displaylist := b\<rparr>) = uncache m"
  by (simp_all add: uncache_def)

lemma cache_only_fields:
  assumes "cache_only w w'"
  shows "parent (mem w' n) = parent (mem w n)"
    and "children (mem w' n) = children (mem w n)"
    and "pose (mem w' n) = pose (mem w n)"
    and "geom (mem w' n) = geom (mem w n)"
    and "blocks (mem w' n) = blocks (mem w n)"
    and "velocity (mem w' n) = velocity (mem w n)"
    and "stall (mem w' n) = stall (mem w n)"
    and "trail (mem w' n) = trail (mem w n)"
    and "obstacle_return (mem w' n) = obstacle_return (mem w n)"
    and "subs (mem w' n) = subs (mem w n)"
    and "index w' = index w" and "ppm w' = ppm w" and "events w' = events w"
    and "velocity_list w' = velocity_list w" and "update_list w' = update_list w"
    and "counters w' = counters w" and "next_link w' = next_link w"
proof -
  from assms have u: "uncache (mem w' n) = uncache (mem w n)" and e: "w'\<lparr>mem := mem w\<rparr> = w"
    by (simp_all add: cache_only_def)
  show "parent (mem w' n) = parent (mem w n)"
    using arg_cong [OF u, of parent] by (simp add: uncache_def)
  show "children (mem w' n) = children (mem w n)"
    using arg_cong [OF u, of children] by (simp add: uncache_def)
  show "pose (mem w' n) = pose (mem w n)"
    using arg_cong [OF u, of pose] by (simp add: uncache_def)
  show "geom (mem w' n) = geom (mem w n)"
    using arg_cong [OF u, of geom] by (simp add: uncache_def)
  show "blocks (mem w' n) = blocks (mem w n)"
    using arg_cong [OF u, of blocks] by (simp add: uncache_def)
  show "velocity (mem w' n) = velocity (mem w n)"
    using arg_cong [OF u, of velocity] by (simp add: uncache_def)
  show "stall (mem w' n) = stall (mem w n)"
    using arg_cong [OF u, of stall] by (simp add: uncache_def)
  show "trail (mem w' n) = trail (mem w n)"
    using arg_cong [OF u, of trail] by (simp add: uncache_def)
  show "obstacle_return (mem w' n) = obstacle_return (mem w n)"
    using arg_cong [OF u, of obstacle_return] by (simp add: uncache_def)
  show "subs (mem w' n) = subs (mem w n)"
    using arg_cong [OF u, of subs] by (simp add: uncache_def)
  show "index w' = index w" using arg_cong [OF e, of index] by simp
  show "ppm w' = ppm w" using arg_cong [OF e, of ppm] by simp
  show "events w' = events w" using arg_cong [OF e, of events] by simp
  show "velocity_list w' = velocity_list w" using arg_cong [OF e, of velocity_list] by simp
  show "update_list w' = update_list w" using arg_cong [OF e, of update_list] by simp
  show "counters w' = counters w" using arg_cong [OF e, of counters] by simp
  show "next_link w' = next_link w" using arg_cong [OF e, of next_link] by simp
qed

lemma GetGlobalPose_cache_only:
  assumes "GetGlobalPose w m = Some r"
  shows "cache_only w (snd r) \<and> fst r = global_pose (mem (snd r) m)"
proof (rule GetGlobalPose.raw_induct
    [OF _ assms, where P = "\<lambda>w m r. cache_only w (snd r) \<and> fst r = global_pose (mem (snd r) m)"])
  fix f and w :: StgWorld and this r
  assume IH: "\<And>w m r. f w m = Some r \<Longrightarrow> cache_only w (snd r) \<and> fst r = global_pose (mem (snd r) m)"
    and body: "(case parent (mem w this) of
        Some p \<Rightarrow>
          do {
            (parent_pose, w1) \<leftarrow> f w p;
            let g = pose_sum parent_pose (pose (mem w1 this));
            let g = g\<lparr>pose_z := pose_z g + size_z (geom_size (geom (mem w1 p)))\<rparr>;
            let w2 = upd w1 this (\<lambda>m. m\<lparr>global_pose := g\<rparr>);
            let w3 = upd w2 this (\<lambda>m. m\<lparr>gpose_dirty := False\<rparr>);
            Some (global_pose (mem w3 this), w3)
          }
      | None \<Rightarrow>
          (let w2 = upd w this (\<lambda>m. m\<lparr>global_pose := pose m\<rparr>);
               w3 = upd w2 this (\<lambda>m. m\<lparr>gpose_dirty := False\<rparr>)
           in Some (global_pose (mem w3 this), w3))) = Some r"
  show "cache_only w (snd r) \<and> fst r = global_pose (mem (snd r) this)"
  proof (cases "parent (mem w this)")
    case None
    with body show ?thesis
      by (auto simp: Let_def intro!: cache_only_upd cache_only_refl)
  next
    case (Some p)
    with body obtain pp w1 where f: "f w p = Some (pp, w1)"
      by (auto split: bind_splits)
    from IH [OF f] have c: "cache_only w w1" by simp
    from body Some f show ?thesis
      by (auto simp: Let_def intro!: cache_only_upd c)
  qed
qed

lemma is_chain_cache_only: "cache_only w w' \<Longrightarrow> is_chain w' m ps = is_chain w m ps"
  by (induction ps arbitrary: m) (simp_all add: cache_only_fields)

lemma gpose_cache_only: "cache_only w w' \<Longrightarrow> gpose w' m ps = gpose w m ps"
  by (induction ps arbitrary: m) (simp_all add: cache_only_fields)

lemma GetGlobalPose_chain:
  "is_chain w m ps \<Longrightarrow> \<exists>w'. GetGlobalPose w m = Some (gpose w m ps, w') \<and> cache_only w w'"
proof (induction ps arbitrary: m)
  case Nil
  then show ?case
    by (subst GetGlobalPose.simps)
       (auto simp: Let_def intro!: cache_only_upd cache_only_refl)
next
  case (Cons p ps)
  then obtain w1 where 1: "GetGlobalPose w p = Some (gpose w p ps, w1)" and c: "cache_only w w1"
    by auto
  from Cons.prems 1 c show ?case
    by (subst GetGlobalPose.simps)
       (auto simp: Let_def cache_only_fields intro!: cache_only_upd c)
qed

subsection \<open>Pose algebra\<close>



lemma normalize_range: "- pi < normalize t \<and> normalize t \<le> pi"
proof -
  define k where "k = \<lceil>(t - pi) / (2 * pi)\<rceil>"
  have "of_int k - 1 < (t - pi) / (2 * pi)" and "(t - pi) / (2 * pi) \<le> of_int k"
    unfolding k_def by linarith+
  then have "(of_int k - 1) * (2 * pi) < t - pi" and "t - pi \<le> of_int k * (2 * pi)"
    by (simp_all add: pos_less_divide_eq pos_divide_le_eq)
  then show ?thesis
    unfolding normalize_def k_def [symmetric] by (simp add: algebra_simps)
qed

subsection \<open>Ancestor test\<close>

lemma IsAntecedent_result:
  assumes "IsAntecedent w this t = Some r"
  shows "r \<noteq> Inr False"
proof (rule IsAntecedent.raw_induct [OF _ assms, where P = "\<lambda>_ _ _ r. r \<noteq> Inr False"])
  fix f and w :: StgWorld and this testmod r
  assume IH: "\<And>w this testmod r. f w this testmod = Some r \<Longrightarrow> r \<noteq> Inr False"
    and body: "(case this of
        None \<Rightarrow> Some (Inl NullPointerCall)
      | Some t \<Rightarrow>
          if Some t = testmod then Some (Inr True)
          else f w (parent (mem w t)) testmod \<bind>
               (\<lambda>r. case r of
                      Inl e \<Rightarrow> Some (Inl e)
                    | Inr b \<Rightarrow> if b then Some (Inr True) else Some (Inr False))) = Some r"
  show "r \<noteq> Inr False"
  proof (cases this)
    case None
    with body show ?thesis by auto
  next
    case (Some t)
    show ?thesis
    proof (cases "Some t = testmod")
      case True
      with body Some show ?thesis by auto
    next
      case False
      with body Some obtain r' where r': "f w (parent (mem w t)) testmod = Some r'"
        by (auto split: bind_splits)
      from IH [OF r'] body Some False r' show ?thesis
        by (cases r') (auto split: if_splits)
    qed
  qed
qed

lemma IsAntecedent_chain:
  "is_chain w m ps \<Longrightarrow> IsAntecedent w (Some m) t =
      Some (if t \<in> Some ` set (m # ps) then Inr True else Inl NullPointerCall)"
proof (induction ps arbitrary: m)
  case Nil
  then show ?case
    by (subst IsAntecedent.simps, subst IsAntecedent.simps) auto
next
  case (Cons p ps)
  then show ?case
    by (subst IsAntecedent.simps) auto
qed

subsection \<open>Effect of the subscription calls on the fields they touch\<close>

lemma Subscribe_subs:
  "subs (mem (Subscribe w this) n) = (if n = this then subs (mem w this) + 1 else subs (mem w n))"
  by (simp add: Subscribe_def Startup_def StartUpdatingModel_def CallCallbacks_def Let_def)

lemma Subscribe_initfunc: "initfunc (mem (Subscribe w this) n) = initfunc (mem w n)"
  by (simp add: Subscribe_def Startup_def StartUpdatingModel_def CallCallbacks_def Let_def)

lemma Subscribe_events:
  "events (Subscribe w this) =
     events w @ (if subs (mem w this) = 0
                 then (if initfunc (mem w this) then [InitFunc this] else [])
                      @ [Callback this startup_hook]
                 else [])"
  by (simp add: Subscribe_def Startup_def StartUpdatingModel_def CallCallbacks_def Let_def)

lemma Subscribe_update_list:
  "update_list (Subscribe w this) =
     (if subs (mem w this) = 0 then update_list w @ [this] else update_list w)"
  by (simp add: Subscribe_def Startup_def StartUpdatingModel_def CallCallbacks_def Let_def)

lemma Unsubscribe_subs:
  "subs (mem (Unsubscribe w this) n) = (if n = this then subs (mem w this) - 1 else subs (mem w n))"
  by (simp add: Unsubscribe_def Shutdown_def StopUpdatingModel_def CallCallbacks_def Let_def)

lemma Unsubscribe_initfunc: "initfunc (mem (Unsubscribe w this) n) = initfunc (mem w n)"
  by (simp add: Unsubscribe_def Shutdown_def StopUpdatingModel_def CallCallbacks_def Let_def)

lemma Unsubscribe_events:
  "events (Unsubscribe w this) =
     events w @ (if subs (mem w this) \<le> 1 then [Callback this shutdown_hook] else [])"
  by (simp add: Unsubscribe_def Shutdown_def StopUpdatingModel_def CallCallbacks_def Let_def)

lemma Unsubscribe_update_list:
  "update_list (Unsubscribe w this) =
     (if subs (mem w this) \<le> 1 then remove1 this (update_list w) else update_list w)"
  by (simp add: Unsubscribe_def Shutdown_def StopUpdatingModel_def CallCallbacks_def Let_def)

lemmas subscription_simps =
  Subscribe_subs Subscribe_initfunc Subscribe_events Subscribe_update_list
  Unsubscribe_subs Unsubscribe_initfunc Unsubscribe_events Unsubscribe_update_list

lemma Subscribe_update_list_ok:
  assumes "update_list_ok w"
  shows "update_list_ok (Subscribe w this)"
proof (cases "subs (mem w this) = 0")
  case True
  with assms have "this \<notin> set (update_list w)"
    by (simp add: update_list_ok_def)
  with assms True show ?thesis
    by (simp add: update_list_ok_def subscription_simps)
next
  case False
  with assms show ?thesis
    by (simp add: update_list_ok_def subscription_simps) presburger
qed

lemma Unsubscribe_update_list_ok:
  assumes "update_list_ok w"
  shows "update_list_ok (Unsubscribe w this)"
proof (cases "subs (mem w this) \<le> 1")
  case True
  with assms show ?thesis
    by (simp add: update_list_ok_def subscription_simps)
next
  case False
  with assms show ?thesis
    by (simp add: update_list_ok_def subscription_simps)
qed

subsection \<open>Example worlds, evaluated\<close>

lemma S1_world_simps [simp]:
  "parent (mem S1_world 2) = None"
  "parent (mem S1_world 3) = Some 2"
  "pose (mem S1_world 2) = new_pose 1 0 0 (pi / 2)"
  "pose (mem S1_world 3) = new_pose 1 0 0 0"
  "size_z (geom_size (geom (mem S1_world 2))) = 0.2"
  "geom_pose (geom (mem S1_world 3)) = new_pose 0 0 0 0"
  by (simp_all add: S1_world_def StgModel_init_def)

lemma S5_world_simps [simp]:
  "subs (mem S5_world m) = 0"
  "initfunc (mem S5_world 4)"
  "update_list S5_world = []"
  "events S5_world = []"
  by (simp_all add: S5_world_def empty_world_def StgModel_init_def)

lemma empty_world_simps [simp]:
  "subs (mem empty_world m) = 0"
  "on_velocity_list (mem empty_world m) = False"
  "velocity_list empty_world = []"
  "update_list empty_world = []"
  "events empty_world = []"
  by (simp_all add: empty_world_def StgModel_init_def)


subsection \<open>Frame of mapping and unmapping\<close>

lemma cache_index_only_refl: "cache_index_only w w"
  by (simp add: cache_index_only_def)

lemma cache_only_imp_index: "cache_only w w' \<Longrightarrow> cache_index_only w w'"
proof -
  assume a: "cache_only w w'"
  then have "w'\<lparr>mem := mem w\<rparr> = w" by (simp add: cache_only_def)
  then have "(w'\<lparr>mem := mem w\<rparr>)\<lparr>index := index w, counters := counters w, next_link := next_link w\<rparr> = w"
    by simp
  moreover have "\<And>n. unmapped (mem w' n) = unmapped (mem w n)"
  proof -
    fix n
    from a have u: "uncache (mem w' n) = uncache (mem w n)" by (simp add: cache_only_def)
    have "blocks (mem w' n) = blocks (mem w n)" using a by (rule cache_only_fields)
    with u show "unmapped (mem w' n) = unmapped (mem w n)" by (simp add: unmapped_def)
  qed
  ultimately show ?thesis by (simp add: cache_index_only_def)
qed

lemma cache_index_only_trans:
  assumes "cache_index_only w w1" "cache_index_only w1 w2"
  shows "cache_index_only w w2"
proof -
  have "w2\<lparr>mem := mem w, index := index w, counters := counters w, next_link := next_link w\<rparr>
          = (w2\<lparr>mem := mem w1, index := index w1, counters := counters w1, next_link := next_link w1\<rparr>)
               \<lparr>mem := mem w, index := index w, counters := counters w, next_link := next_link w\<rparr>"
    by simp
  with assms show ?thesis by (simp add: cache_index_only_def)
qed

lemma cache_index_only_world:
  "cache_index_only w w' \<Longrightarrow> cache_index_only w (w'\<lparr>index := i\<rparr>)"
  "cache_index_only w w' \<Longrightarrow> cache_index_only w (w'\<lparr>counters := c\<rparr>)"
  "cache_index_only w w' \<Longrightarrow> cache_index_only w (w'\<lparr>next_link := l\<rparr>)"
  by (simp_all add: cache_index_only_def)

lemma unrender_fields [simp]:
  "pts (unrender B) = pts B" "zmin (unrender B) = zmin B" "zmax (unrender B) = zmax B"
  by (simp_all add: unrender_def)

lemma map_unrender:
  assumes "map unrender xs = map unrender ys"
  shows "length xs = length ys" and "map pts xs = map pts ys"
    and "map zmin xs = map zmin ys" and "map zmax xs = map zmax ys"
proof -
  show "length xs = length ys" using arg_cong [OF assms, of length] by simp
  show "map pts xs = map pts ys" using arg_cong [OF assms, of "map pts"] by (simp add: comp_def)
  show "map zmin xs = map zmin ys" using arg_cong [OF assms, of "map zmin"] by (simp add: comp_def)
  show "map zmax xs = map zmax ys" using arg_cong [OF assms, of "map zmax"] by (simp add: comp_def)
qed

lemma cache_index_only_fields:
  assumes "cache_index_only w w'"
  shows "parent (mem w' n) = parent (mem w n)"
    and "children (mem w' n) = children (mem w n)"
    and "pose (mem w' n) = pose (mem w n)"
    and "geom (mem w' n) = geom (mem w n)"
    and "velocity (mem w' n) = velocity (mem w n)"
    and "stall (mem w' n) = stall (mem w n)"
    and "trail (mem w' n) = trail (mem w n)"
    and "obstacle_return (mem w' n) = obstacle_return (mem w n)"
    and "subs (mem w' n) = subs (mem w n)"
    and "disabled (mem w' n) = disabled (mem w n)"
    and "ppm w' = ppm w" and "events w' = events w"
    and "velocity_list w' = velocity_list w" and "update_list w' = update_list w"
    and "updates w' = updates w" and "sim_time w' = sim_time w"
    and "interval_sim w' = interval_sim w"
    and "map unrender (blocks (mem w' n)) = map unrender (blocks (mem w n))"
proof -
  from assms have u: "unmapped (mem w' n) = unmapped (mem w n)"
    and e: "w'\<lparr>mem := mem w, index := index w, counters := counters w, next_link := next_link w\<rparr> = w"
    by (simp_all add: cache_index_only_def)
  show "parent (mem w' n) = parent (mem w n)"
    using arg_cong [OF u, of parent] by (simp add: unmapped_def uncache_def)
  show "children (mem w' n) = children (mem w n)"
    using arg_cong [OF u, of children] by (simp add: unmapped_def uncache_def)
  show "pose (mem w' n) = pose (mem w n)"
    using arg_cong [OF u, of pose] by (simp add: unmapped_def uncache_def)
  show "geom (mem w' n) = geom (mem w n)"
    using arg_cong [OF u, of geom] by (simp add: unmapped_def uncache_def)
  show "velocity (mem w' n) = velocity (mem w n)"
    using arg_cong [OF u, of velocity] by (simp add: unmapped_def uncache_def)
  show "stall (mem w' n) = stall (mem w n)"
    using arg_cong [OF u, of stall] by (simp add: unmapped_def uncache_def)
  show "trail (mem w' n) = trail (mem w n)"
    using arg_cong [OF u, of trail] by (simp add: unmapped_def uncache_def)
  show "obstacle_return (mem w' n) = obstacle_return (mem w n)"
    using arg_cong [OF u, of obstacle_return] by (simp add: unmapped_def uncache_def)
  show "subs (mem w' n) = subs (mem w n)"
    using arg_cong [OF u, of subs] by (simp add: unmapped_def uncache_def)
  show "disabled (mem w' n) = disabled (mem w n)"
    using arg_cong [OF u, of disabled] by (simp add: unmapped_def uncache_def)
  show "map unrender (blocks (mem w' n)) = map unrender (blocks (mem w n))"
    using arg_cong [OF u, of blocks] by (simp add: unmapped_def uncache_def)
  show "ppm w' = ppm w" using arg_cong [OF e, of ppm] by simp
  show "events w' = events w" using arg_cong [OF e, of events] by simp
  show "velocity_list w' = velocity_list w" using arg_cong [OF e, of velocity_list] by simp
  show "update_list w' = update_list w" using arg_cong [OF e, of update_list] by simp
  show "updates w' = updates w" using arg_cong [OF e, of updates] by simp
  show "sim_time w' = sim_time w" using arg_cong [OF e, of sim_time] by simp
  show "interval_sim w' = interval_sim w" using arg_cong [OF e, of interval_sim] by simp
qed

lemma cache_index_only_blocks:
  assumes "cache_index_only w w'"
  shows "length (blocks (mem w' n)) = length (blocks (mem w n))"
    and "map pts (blocks (mem w' n)) = map pts (blocks (mem w n))"
    and "(blocks (mem w' n) = []) = (blocks (mem w n) = [])"
    and "k < length (blocks (mem w n)) \<Longrightarrow> pts (block w' (n, k)) = pts (block w (n, k))"
    and "k < length (blocks (mem w n)) \<Longrightarrow> zmin (block w' (n, k)) = zmin (block w (n, k))"
    and "k < length (blocks (mem w n)) \<Longrightarrow> zmax (block w' (n, k)) = zmax (block w (n, k))"
proof -
  note m = map_unrender [OF cache_index_only_fields(18) [OF assms, of n]]
  show l: "length (blocks (mem w' n)) = length (blocks (mem w n))" by (rule m)
  show "map pts (blocks (mem w' n)) = map pts (blocks (mem w n))" by (rule m)
  show "(blocks (mem w' n) = []) = (blocks (mem w n) = [])"
    using l by (metis length_0_conv)
  assume k: "k < length (blocks (mem w n))"
  show "pts (block w' (n, k)) = pts (block w (n, k))"
    using arg_cong [OF m(2), of "\<lambda>xs. xs ! k"] k l by (simp add: block_def)
  show "zmin (block w' (n, k)) = zmin (block w (n, k))"
    using arg_cong [OF m(3), of "\<lambda>xs. xs ! k"] k l by (simp add: block_def)
  show "zmax (block w' (n, k)) = zmax (block w (n, k))"
    using arg_cong [OF m(4), of "\<lambda>xs. xs ! k"] k l by (simp add: block_def)
qed

lemma map_list_update_same:
  "g (f (xs ! k)) = g (xs ! k) \<Longrightarrow> map g (xs[k := f (xs ! k)]) = map g xs"
  by (cases "k < length xs") (simp_all add: map_update list_update_same_conv list_update_beyond)

lemma cache_index_only_upd_block:
  assumes "cache_index_only w w1" and "\<And>B. unrender (f B) = unrender B"
  shows "cache_index_only w (upd_block w1 b f)"
proof (rule cache_index_only_trans [OF assms(1)])
  show "cache_index_only w1 (upd_block w1 b f)"
    by (simp add: cache_index_only_def upd_block_def upd_def unmapped_def uncache_def
          map_list_update_same assms(2))
qed

lemma upd_block_fields [simp]:
  "velocity_list (upd_block w b f) = velocity_list w"
  "update_list (upd_block w b f) = update_list w"
  "events (upd_block w b f) = events w"
  "index (upd_block w b f) = index w"
  "counters (upd_block w b f) = counters w"
  "next_link (upd_block w b f) = next_link w"
  "ppm (upd_block w b f) = ppm w"
  by (simp_all add: upd_block_def)

lemma AddBlockPixel_frame: "cache_index_only w (AddBlockPixel w c b)"
  unfolding AddBlockPixel_def RecordRenderPoint_def Let_def
  by (intro cache_index_only_upd_block cache_index_only_world cache_index_only_refl)
     (simp add: unrender_def)

lemma fold_frame:
  assumes "\<And>x w. cache_index_only w (f x w)"
  shows "cache_index_only w (fold f xs w)"
proof (induction xs arbitrary: w)
  case Nil
  show ?case by (simp add: cache_index_only_refl)
next
  case (Cons x xs)
  from assms [of w x] Cons [of "f x w"] show ?case
    by (auto intro: cache_index_only_trans)
qed

lemma stg_polygon_3d_frame:
  "cache_index_only w (stg_polygon_3d vs (\<lambda>c w'. AddBlockPixel w' c b) w)"
  unfolding stg_polygon_3d_def by (rule fold_frame) (rule AddBlockPixel_frame)

lemma render_frame: "cache_index_only w (render w b pixels gz)"
  unfolding render_def
  by (rule cache_index_only_trans [OF _ stg_polygon_3d_frame])
     (rule cache_index_only_upd_block [OF cache_index_only_refl], simp add: unrender_def)

lemma UnMap_point_frame: "cache_index_only w (UnMap_point pt w)"
  unfolding UnMap_point_def Let_def
  by (intro cache_index_only_world cache_index_only_refl)

lemma Block_UnMap_frame: "cache_index_only w (Block_UnMap w b)"
  unfolding Block_UnMap_def Let_def
  by (rule cache_index_only_upd_block [OF fold_frame])
     (rule UnMap_point_frame, simp add: unrender_def)

lemma UnMap_frame: "cache_index_only w (UnMap w m)"
  unfolding UnMap_def by (rule fold_frame) (rule Block_UnMap_frame)


subsection \<open>Mapping, tree traversals, pose change and collision test\<close>

lemma LocalToGlobal_chain:
  assumes "is_chain w m ps"
  shows "\<exists>w'. LocalToGlobal w m p = Some (pose_sum (body_frame w m ps) p, w') \<and> cache_only w w'"
proof -
  from assms obtain w' where 1: "GetGlobalPose w m = Some (gpose w m ps, w')" and c: "cache_only w w'"
    using GetGlobalPose_chain by blast
  then show ?thesis
    by (simp add: LocalToGlobal_def body_frame_def cache_only_fields [OF c])
qed

lemma body_frame_cache_only: "cache_only w w' \<Longrightarrow> body_frame w' m ps = body_frame w m ps"
  by (simp add: body_frame_def gpose_cache_only cache_only_fields)

lemma vertex_pixel_cache_only: "cache_only w w' \<Longrightarrow> vertex_pixel w' m ps v = vertex_pixel w m ps v"
  by (simp add: vertex_pixel_def MetersToPixels_def body_frame_cache_only cache_only_fields)

lemma map_points_chain:
  "is_chain w m ps \<Longrightarrow>
     \<exists>g w'. map_points w m z vs g0 = Some (map (vertex_pixel w m ps) vs, g, w') \<and> cache_only w w'
          \<and> pt3_z g = (if vs = [] then pt3_z g0 else pose_z (body_frame w m ps) + z)"
proof (induction vs arbitrary: w g0)
  case Nil
  then show ?case by (simp add: cache_only_refl)
next
  case (Cons v vs)
  let ?p = "\<lparr>pose_x = pt_x v, pose_y = pt_y v, pose_z = z, pose_a = 0\<rparr>"
  let ?q = "pose_sum (body_frame w m ps) ?p"
  let ?g1 = "\<lparr>pt3_x = pose_x ?q, pt3_y = pose_y ?q, pt3_z = pose_z ?q\<rparr>"
  from LocalToGlobal_chain [OF Cons.prems]
  obtain w1 where 1: "LocalToGlobal w m ?p = Some (?q, w1)" and c1: "cache_only w w1" by blast
  have l: "LocalToGlobal_point w m \<lparr>pt3_x = pt_x v, pt3_y = pt_y v, pt3_z = z\<rparr> = Some (?g1, w1)"
    using 1 by (simp add: LocalToGlobal_point_def)
  from Cons.prems c1 have "is_chain w1 m ps" by (simp add: is_chain_cache_only)
  from Cons.IH [OF this, of ?g1] obtain g w2 where
    2: "map_points w1 m z vs ?g1 = Some (map (vertex_pixel w1 m ps) vs, g, w2)"
    and c2: "cache_only w1 w2"
    and z2: "pt3_z g = (if vs = [] then pt3_z ?g1 else pose_z (body_frame w1 m ps) + z)"
    by blast
  have px: "(MetersToPixels w1 (pose_x ?q), MetersToPixels w1 (pose_y ?q)) = vertex_pixel w m ps v"
    by (simp add: vertex_pixel_def MetersToPixels_def pose_sum_def cache_only_fields [OF c1])
  have vs: "map (vertex_pixel w1 m ps) vs = map (vertex_pixel w m ps) vs"
    by (simp add: vertex_pixel_cache_only [OF c1])
  have z: "pt3_z g = pose_z (body_frame w m ps) + z"
    using z2 by (simp add: body_frame_cache_only [OF c1] pose_sum_def)
  have "map_points w m z (v # vs) g0 = Some (map (vertex_pixel w m ps) (v # vs), g, w2)"
    using l 2 px vs by (simp add: Let_def)
  with z cache_only_trans [OF c1 c2] show ?case by auto
qed

lemma is_chain_cio: "cache_index_only w w' \<Longrightarrow> is_chain w' m ps = is_chain w m ps"
  by (induction ps arbitrary: m) (simp_all add: cache_index_only_fields)

lemma gpose_cio: "cache_index_only w w' \<Longrightarrow> gpose w' m ps = gpose w m ps"
  by (induction ps arbitrary: m) (simp_all add: cache_index_only_fields)

lemma body_frame_cio: "cache_index_only w w' \<Longrightarrow> body_frame w' m ps = body_frame w m ps"
  by (simp add: body_frame_def gpose_cio cache_index_only_fields)

lemma vertex_pixel_cio: "cache_index_only w w' \<Longrightarrow> vertex_pixel w' m ps = vertex_pixel w m ps"
  by (rule ext) (simp add: vertex_pixel_def MetersToPixels_def body_frame_cio cache_index_only_fields)

lemma upd_block_twice: "upd_block (upd_block w b f) b g = upd_block w b (\<lambda>B. g (f B))"
  by (cases "snd b < length (blocks (mem w (fst b)))")
     (simp_all add: upd_block_def upd_def list_update_beyond)

lemma block_upd_block:
  "snd b < length (blocks (mem w (fst b))) \<Longrightarrow> block (upd_block w b f) b = f (block w b)"
  by (simp add: block_def upd_block_def)

lemma Block_Map_chain:
  assumes "is_chain w m ps" and "k < length (blocks (mem w m))"
  shows "\<exists>w1. cache_only w w1
          \<and> Block_Map w (m, k)
              = Some (render w1 (m, k) (map (vertex_pixel w m ps) (pts (block w (m, k))))
                        (if pts (block w (m, k)) = [] then pt3_z (undefined :: stg_point3_t)
                         else pose_z (body_frame w m ps) + zmin (block w (m, k))))"
proof -
  let ?B = "block w (m, k)"
  let ?pix = "map (vertex_pixel w m ps) (pts ?B)"
  from map_points_chain [OF assms(1), of "zmin ?B" "pts ?B" undefined]
  obtain g w1 where 1: "map_points w m (zmin ?B) (pts ?B) undefined = Some (?pix, g, w1)"
    and c1: "cache_only w w1"
    and z: "pt3_z g = (if pts ?B = [] then pt3_z (undefined :: stg_point3_t) else pose_z (body_frame w m ps) + zmin ?B)"
    by blast
  have k1: "snd (m, k) < length (blocks (mem w1 (fst (m, k))))"
    using assms(2) by (simp add: cache_only_fields [OF c1])
  have u: "upd_block (upd_block (upd_block w1 (m, k) (\<lambda>B. B\<lparr>pts_global_pixels := ?pix\<rparr>)) (m, k)
               (\<lambda>B. B\<lparr>global_zmin := pt3_z g\<rparr>)) (m, k)
               (\<lambda>B. B\<lparr>global_zmax := pt3_z g + (zmax B - zmin B)\<rparr>)
           = upd_block w1 (m, k) (\<lambda>B. B\<lparr>pts_global_pixels := ?pix, global_zmin := pt3_z g,
                                          global_zmax := pt3_z g + (zmax B - zmin B)\<rparr>)"
    by (simp add: upd_block_twice)
  have p: "pts_global_pixels (block (upd_block w1 (m, k)
              (\<lambda>B. B\<lparr>pts_global_pixels := ?pix, global_zmin := pt3_z g,
                      global_zmax := pt3_z g + (zmax B - zmin B)\<rparr>)) (m, k)) = ?pix"
    by (simp add: block_upd_block [OF k1])
  have "Block_Map w (m, k) = Some (render w1 (m, k) ?pix (pt3_z g))"
    using 1 by (simp add: Block_Map_def Let_def u p render_def)
  with c1 z show ?thesis by auto
qed

lemma LocalToGlobal_frame: "LocalToGlobal w m p = Some (q, w') \<Longrightarrow> cache_only w w'"
  using GetGlobalPose_cache_only [of w m]
  by (auto simp: LocalToGlobal_def split: bind_splits)

lemma map_points_frame: "map_points w m z vs g0 = Some (r, g, w') \<Longrightarrow> cache_only w w'"
proof (induction vs arbitrary: w r g0)
  case Nil
  then show ?case by (simp add: cache_only_refl)
next
  case (Cons v vs)
  then obtain g1 w1 gs where 1: "LocalToGlobal_point w m \<lparr>pt3_x = pt_x v, pt3_y = pt_y v, pt3_z = z\<rparr> = Some (g1, w1)"
    and 2: "map_points w1 m z vs g1 = Some (gs, g, w')"
    by (auto simp: Let_def split: bind_splits)
  from 1 have "cache_only w w1"
    by (auto simp: LocalToGlobal_point_def Let_def split: bind_splits dest: LocalToGlobal_frame)
  with Cons.IH [OF 2] show ?case by (rule cache_only_trans [rotated])
qed

lemma Block_Map_frame: "Block_Map w b = Some w' \<Longrightarrow> cache_index_only w w'"
proof -
  assume "Block_Map w b = Some w'"
  then obtain pix g w1 where 1: "map_points w (fst b) (zmin (block w b)) (pts (block w b)) undefined
        = Some (pix, g, w1)"
    and 3: "w' = stg_polygon_3d
          (pts_global_pixels (block (upd_block (upd_block (upd_block w1 b (\<lambda>B. B\<lparr>pts_global_pixels := pix\<rparr>)) b
               (\<lambda>B. B\<lparr>global_zmin := pt3_z g\<rparr>)) b
               (\<lambda>B. B\<lparr>global_zmax := pt3_z g + (zmax B - zmin B)\<rparr>)) b))
          (\<lambda>c w'. AddBlockPixel w' c b)
          (upd_block (upd_block (upd_block w1 b (\<lambda>B. B\<lparr>pts_global_pixels := pix\<rparr>)) b
               (\<lambda>B. B\<lparr>global_zmin := pt3_z g\<rparr>)) b
               (\<lambda>B. B\<lparr>global_zmax := pt3_z g + (zmax B - zmin B)\<rparr>))"
    by (auto simp: Block_Map_def Let_def split: bind_splits)
  have "cache_index_only w w1"
    using map_points_frame [OF 1] by (rule cache_only_imp_index)
  then have "cache_index_only w
          (upd_block (upd_block (upd_block w1 b (\<lambda>B. B\<lparr>pts_global_pixels := pix\<rparr>)) b
               (\<lambda>B. B\<lparr>global_zmin := pt3_z g\<rparr>)) b
               (\<lambda>B. B\<lparr>global_zmax := pt3_z g + (zmax B - zmin B)\<rparr>))"
    by (intro cache_index_only_upd_block) (simp_all add: unrender_def)
  then show ?thesis
    unfolding 3 by (rule cache_index_only_trans) (rule stg_polygon_3d_frame)
qed

lemma foldM_Block_Map:
  "is_chain w m ps \<Longrightarrow> \<forall>k \<in> set ks. k < length (blocks (mem w m)) \<Longrightarrow>
     \<exists>w'. foldM_opt (\<lambda>k w'. Block_Map w' (m, k)) ks w = Some w' \<and> cache_index_only w w'"
proof (induction ks arbitrary: w)
  case Nil
  then show ?case by (simp add: cache_index_only_refl)
next
  case (Cons k ks)
  from Cons.prems have "k < length (blocks (mem w m))" by simp
  from Block_Map_chain [OF Cons.prems(1) this]
  obtain w1 where 1: "Block_Map w (m, k) = Some w1" by blast
  have c1: "cache_index_only w w1" using 1 by (rule Block_Map_frame)
  from Cons.prems c1 have "is_chain w1 m ps" by (simp add: is_chain_cio)
  moreover from Cons.prems have "\<forall>k \<in> set ks. k < length (blocks (mem w1 m))"
    by (simp add: cache_index_only_blocks [OF c1])
  ultimately obtain w2 where 2: "foldM_opt (\<lambda>k w'. Block_Map w' (m, k)) ks w1 = Some w2"
    and c2: "cache_index_only w1 w2"
    using Cons.IH by blast
  from 1 2 cache_index_only_trans [OF c1 c2] show ?case by simp
qed

lemma Map_chain:
  assumes "is_chain w m ps"
  shows "\<exists>w'. Map w m = Some w' \<and> cache_index_only w w'"
  using foldM_Block_Map [OF assms, of "[0..<length (blocks (mem w m))]"] by (simp add: Map_def)

lemma same_tree_refl: "same_tree w w"
  by (simp add: same_tree_def)

lemma same_tree_trans: "same_tree w w1 \<Longrightarrow> same_tree w1 w2 \<Longrightarrow> same_tree w w2"
  by (simp add: same_tree_def)

lemma cio_same_tree: "cache_index_only w w' \<Longrightarrow> same_tree w w'"
  by (simp add: same_tree_def cache_index_only_fields)

lemma is_subtree_same_tree: "same_tree w w' \<Longrightarrow> is_subtree w' t = is_subtree w t"
  by (induction t) (auto simp: same_tree_def)

lemma is_chain_same_tree: "same_tree w w' \<Longrightarrow> is_chain w' m ps = is_chain w m ps"
  by (induction ps arbitrary: m) (simp_all add: same_tree_def)

lemma foldM_opt_append:
  "foldM_opt f (xs @ ys) s = foldM_opt f xs s \<bind> foldM_opt f ys"
  by (induction xs arbitrary: s) (simp_all add: bind_assoc cong: Option.bind_cong)

lemma foldM_opt_same_tree:
  assumes "\<And>w m w1. visit w m = Some w1 \<Longrightarrow> same_tree w w1"
  shows "foldM_opt (\<lambda>n w'. visit w' n) ns w = Some w2 \<Longrightarrow> same_tree w w2"
proof (induction ns arbitrary: w)
  case Nil
  then show ?case by (simp add: same_tree_refl)
next
  case (Cons n ns)
  then obtain w1 where 1: "visit w n = Some w1"
    and 2: "foldM_opt (\<lambda>n w'. visit w' n) ns w1 = Some w2"
    by (auto split: bind_splits)
  from assms [OF 1] Cons.IH [OF 2] show ?case by (rule same_tree_trans)
qed

lemma tree_traversal:
  assumes unfold: "\<And>w m. trav w m =
              visit w m \<bind> (\<lambda>w1. foldM_opt (\<lambda>c w'. trav w' c) (children (mem w1 m)) w1)"
    and frame: "\<And>w m w1. visit w m = Some w1 \<Longrightarrow> same_tree w w1"
  shows "is_subtree w t \<Longrightarrow> trav w (root t) = foldM_opt (\<lambda>n w'. visit w' n) (nodes t) w"
proof (induction t arbitrary: w)
  case (CNode m cs)
  have kids: "\<And>w1. \<forall>c \<in> set cs'. is_subtree w1 c \<Longrightarrow> set cs' \<subseteq> set cs \<Longrightarrow>
      foldM_opt (\<lambda>c w'. trav w' c) (map root cs') w1
        = foldM_opt (\<lambda>n w'. visit w' n) (concat (map nodes cs')) w1" for cs'
  proof (induction cs')
    case Nil
    then show ?case by simp
  next
    case (Cons c cs')
    from Cons.prems have c: "c \<in> set cs" and sub: "is_subtree w1 c" by auto
    have 1: "trav w1 (root c) = foldM_opt (\<lambda>n w'. visit w' n) (nodes c) w1"
      using CNode.IH [OF c sub] .
    show ?case
    proof (cases "foldM_opt (\<lambda>n w'. visit w' n) (nodes c) w1")
      case None
      with 1 show ?thesis by (simp add: foldM_opt_append)
    next
      case (Some w2)
      from foldM_opt_same_tree [of visit, OF frame Some] have st: "same_tree w1 w2" .
      from Cons.prems st have "\<forall>c \<in> set cs'. is_subtree w2 c"
        by (simp add: is_subtree_same_tree)
      moreover from Cons.prems have "set cs' \<subseteq> set cs" by simp
      ultimately have "foldM_opt (\<lambda>c w'. trav w' c) (map root cs') w2
        = foldM_opt (\<lambda>n w'. visit w' n) (concat (map nodes cs')) w2"
        by (rule Cons.IH)
      with 1 Some show ?thesis by (simp add: foldM_opt_append)
    qed
  qed
  show ?case
  proof (cases "visit w m")
    case None
    then show ?thesis by (subst unfold) simp
  next
    case (Some w1)
    from frame [OF Some] have st: "same_tree w w1" .
    with CNode.prems have "\<forall>c \<in> set cs. is_subtree w1 c"
      by (simp add: is_subtree_same_tree)
    from kids [OF this] have "foldM_opt (\<lambda>c w'. trav w' c) (map root cs) w1
        = foldM_opt (\<lambda>n w'. visit w' n) (concat (map nodes cs)) w1" by simp
    moreover from st CNode.prems have "children (mem w1 m) = map root cs"
      by (simp add: same_tree_def)
    ultimately show ?thesis using Some by (subst unfold) simp
  qed
qed

lemma foldM_opt_cio:
  assumes "\<And>x w w1. f x w = Some w1 \<Longrightarrow> cache_index_only w w1"
  shows "foldM_opt f xs w = Some w2 \<Longrightarrow> cache_index_only w w2"
proof (induction xs arbitrary: w)
  case Nil
  then show ?case by (simp add: cache_index_only_refl)
next
  case (Cons x xs)
  then obtain w1 where 1: "f x w = Some w1" and 2: "foldM_opt f xs w1 = Some w2"
    by (auto split: bind_splits)
  from assms [OF 1] Cons.IH [OF 2] show ?case by (rule cache_index_only_trans)
qed

lemma Map_frame: "Map w m = Some w' \<Longrightarrow> cache_index_only w w'"
  unfolding Map_def by (rule foldM_opt_cio [where f = "\<lambda>k w'. Block_Map w' (m, k)"]) (rule Block_Map_frame)

lemma foldM_Some: "foldM_opt (\<lambda>n w'. Some (g w' n)) ns w = Some (fold (\<lambda>n w'. g w' n) ns w)"
  by (induction ns arbitrary: w) simp_all

lemma MapWithChildren_nodes:
  "is_subtree w t \<Longrightarrow> MapWithChildren w (root t) = foldM_opt (\<lambda>n w'. Map w' n) (nodes t) w"
  by (rule tree_traversal [where visit = Map])
     (subst MapWithChildren.simps, rule refl, erule cio_same_tree [OF Map_frame])

lemma UnMap_same_tree: "same_tree w (UnMap w m)"
  by (rule cio_same_tree) (rule UnMap_frame)

lemma UnMapWithChildren_nodes:
  "is_subtree w t \<Longrightarrow> UnMapWithChildren w (root t) = Some (fold (\<lambda>n w'. UnMap w' n) (nodes t) w)"
proof -
  assume a: "is_subtree w t"
  have "UnMapWithChildren w (root t) = foldM_opt (\<lambda>n w'. Some (UnMap w' n)) (nodes t) w"
    using a
  proof (rule tree_traversal [where visit = "\<lambda>w m. Some (UnMap w m)", rotated 2])
    fix w m
    show "UnMapWithChildren w m = Some (UnMap w m) \<bind>
            (\<lambda>w1. foldM_opt (\<lambda>c w'. UnMapWithChildren w' c) (children (mem w1 m)) w1)"
      by (subst UnMapWithChildren.simps) (simp add: Let_def)
  next
    fix w m w1
    assume "Some (UnMap w m) = Some w1"
    then show "same_tree w w1" using UnMap_same_tree [of w m] by simp
  qed
  then show ?thesis by (simp add: foldM_Some)
qed

lemma GPoseDirtyTree_nodes:
  "is_subtree w t \<Longrightarrow> GPoseDirtyTree w (root t) = Some (fold (\<lambda>n w'. set_dirty w' n) (nodes t) w)"
proof -
  assume a: "is_subtree w t"
  have "GPoseDirtyTree w (root t) = foldM_opt (\<lambda>n w'. Some (set_dirty w' n)) (nodes t) w"
    using a
  proof (rule tree_traversal [where visit = "\<lambda>w m. Some (set_dirty w m)", rotated 2])
    fix w m
    show "GPoseDirtyTree w m = Some (set_dirty w m) \<bind>
            (\<lambda>w1. foldM_opt (\<lambda>c w'. GPoseDirtyTree w' c) (children (mem w1 m)) w1)"
      by (subst GPoseDirtyTree.simps) (simp add: Let_def set_dirty_def)
  next
    fix w m w1
    assume "Some (set_dirty w m) = Some w1"
    then show "same_tree w w1" by (auto simp: set_dirty_def same_tree_def)
  qed
  then show ?thesis by (simp add: foldM_Some)
qed

lemma fold_UnMap_frame: "cache_index_only w (fold (\<lambda>n w'. UnMap w' n) ns w)"
  by (rule fold_frame) (rule UnMap_frame)

lemma fold_set_dirty_cache_only: "cache_only w (fold (\<lambda>n w'. set_dirty w' n) ns w)"
proof (induction ns arbitrary: w)
  case Nil
  show ?case by (simp add: cache_only_refl)
next
  case (Cons n ns)
  have "cache_only w (set_dirty w n)"
    unfolding set_dirty_def by (rule cache_only_upd [OF cache_only_refl]) simp
  then show ?case using Cons.IH [of "set_dirty w n"] by (auto intro: cache_only_trans)
qed


lemma NeedRedraw_chain:
  "is_chain w m ps \<Longrightarrow> \<exists>w'. NeedRedraw w m = Some w' \<and> cache_only w w'"
proof (induction ps arbitrary: w m)
  case Nil
  then show ?case
    by (subst NeedRedraw.simps) (auto simp: Let_def intro!: cache_only_upd cache_only_refl)
next
  case (Cons p ps)
  let ?w1 = "upd w m (\<lambda>m. m\<lparr>rebuild_displaylist := True\<rparr>)"
  have c: "cache_only w ?w1" by (rule cache_only_upd [OF cache_only_refl]) simp
  with Cons.prems have "is_chain ?w1 p ps" by (simp add: is_chain_cache_only)
  from Cons.IH [OF this] obtain w' where "NeedRedraw ?w1 p = Some w'" and "cache_only ?w1 w'"
    by blast
  with Cons.prems c show ?case
    by (subst NeedRedraw.simps) (auto simp: Let_def intro: cache_only_trans)
qed

lemma nodes_chains_fst: "map fst (nodes_chains ps t) = nodes t"
proof (induction t arbitrary: ps)
  case (CNode m cs)
  have "map (map fst \<circ> nodes_chains (m # ps)) cs = map nodes cs"
    using CNode.IH by (intro map_cong) simp_all
  then have "concat (map (map fst \<circ> nodes_chains (m # ps)) cs) = concat (map nodes cs)"
    by (rule arg_cong)
  then show ?case by (simp add: map_concat)
qed

lemma nodes_chains_ok:
  "is_subtree w t \<Longrightarrow> is_chain w (root t) ps \<Longrightarrow> (n, c) \<in> set (nodes_chains ps t) \<Longrightarrow> is_chain w n c"
proof (induction t arbitrary: ps)
  case (CNode m cs)
  show ?case
  proof (cases "(n, c) = (m, ps)")
    case True
    with CNode.prems show ?thesis by simp
  next
    case False
    with CNode.prems obtain t' where t': "t' \<in> set cs" and nc: "(n, c) \<in> set (nodes_chains (m # ps) t')"
      by auto
    from CNode.prems t' have "is_subtree w t'" and "is_chain w (root t') (m # ps)"
      by auto
    with CNode.IH [OF t'] nc show ?thesis by blast
  qed
qed

lemma foldM_Map_chains:
  "\<forall>(n, c) \<in> set ncs. is_chain w n c \<Longrightarrow>
     \<exists>w'. foldM_opt (\<lambda>n w'. Map w' n) (map fst ncs) w = Some w' \<and> cache_index_only w w'"
proof (induction ncs arbitrary: w)
  case Nil
  then show ?case by (simp add: cache_index_only_refl)
next
  case (Cons nc ncs)
  obtain n c where nc: "nc = (n, c)" by (cases nc)
  with Cons.prems have "is_chain w n c" by simp
  from Map_chain [OF this] obtain w1 where 1: "Map w n = Some w1" and c1: "cache_index_only w w1"
    by blast
  from Cons.prems c1 have "\<forall>(n, c) \<in> set ncs. is_chain w1 n c"
    by (auto simp: is_chain_cio)
  from Cons.IH [OF this] obtain w2 where 2: "foldM_opt (\<lambda>n w'. Map w' n) (map fst ncs) w1 = Some w2"
    and c2: "cache_index_only w1 w2" by blast
  with 1 nc cache_index_only_trans [OF c1 c2] show ?case by simp
qed

lemma MapWithChildren_chain:
  assumes "is_subtree w t" "is_chain w (root t) ps"
  shows "\<exists>w'. MapWithChildren w (root t) = Some w' \<and> cache_index_only w w'"
proof -
  have "\<forall>(n, c) \<in> set (nodes_chains ps t). is_chain w n c"
    using nodes_chains_ok [OF assms] by auto
  from foldM_Map_chains [OF this] show ?thesis
    by (simp add: MapWithChildren_nodes [OF assms(1)] nodes_chains_fst)
qed

lemma normalize_id: "- pi < t \<Longrightarrow> t \<le> pi \<Longrightarrow> normalize t = t"
proof -
  assume a: "- pi < t" "t \<le> pi"
  have "- 1 < (t - pi) / (2 * pi)" using a by (simp add: pos_less_divide_eq)
  moreover have "(t - pi) / (2 * pi) \<le> 0" using a by (simp add: pos_divide_le_eq)
  ultimately have "\<lceil>(t - pi) / (2 * pi)\<rceil> = 0" by linarith
  then show ?thesis by (simp add: normalize_def)
qed

lemma normalize_idem: "normalize (normalize t) = normalize t"
  using normalize_range [of t] by (simp add: normalize_id)

lemma is_subtree_cio: "cache_index_only w w' \<Longrightarrow> is_subtree w' t = is_subtree w t"
  by (rule is_subtree_same_tree) (rule cio_same_tree)

lemma is_subtree_cache_only: "cache_only w w' \<Longrightarrow> is_subtree w' t = is_subtree w t"
  by (rule is_subtree_cio) (rule cache_only_imp_index)

lemma memcmp_pose_eq [simp]: "(memcmp_pose p q = 0) = (p = q)"
  by (simp add: memcmp_pose_def)

lemma SetPose_changed:
  assumes t: "is_subtree w t" "root t = this" and ch: "is_chain w this ps"
    and ne: "pose (mem w this) \<noteq> p"
  shows "\<exists>w3 w5.
              UnMapWithChildren w this = Some (fold (\<lambda>n w'. UnMap w' n) (nodes t) w)
              \<and> NeedRedraw (upd (fold (\<lambda>n w'. UnMap w' n) (nodes t) w) this
                              (\<lambda>m. m\<lparr>pose := p\<lparr>pose_a := normalize (pose_a p)\<rparr>\<rparr>)) this = Some w3
              \<and> cache_only (upd (fold (\<lambda>n w'. UnMap w' n) (nodes t) w) this
                              (\<lambda>m. m\<lparr>pose := p\<lparr>pose_a := normalize (pose_a p)\<rparr>\<rparr>)) w3
              \<and> GPoseDirtyTree w3 this = Some (fold (\<lambda>n w'. set_dirty w' n) (nodes t) w3)
              \<and> MapWithChildren (fold (\<lambda>n w'. set_dirty w' n) (nodes t) w3) this = Some w5
              \<and> cache_index_only (upd (fold (\<lambda>n w'. UnMap w' n) (nodes t) w) this
                                    (\<lambda>m. m\<lparr>pose := p\<lparr>pose_a := normalize (pose_a p)\<rparr>\<rparr>)) w5
              \<and> SetPose w this p = Some (CallCallbacks w5 this cb_pose)"
proof -
  define w1 where "w1 = fold (\<lambda>n w'. UnMap w' n) (nodes t) w"
  define w2 where "w2 = upd w1 this (\<lambda>m. m\<lparr>pose := p\<lparr>pose_a := normalize (pose_a p)\<rparr>\<rparr>)"
  have u: "UnMapWithChildren w this = Some w1"
    using UnMapWithChildren_nodes [OF t(1)] t(2) by (simp add: w1_def)
  have c1: "cache_index_only w w1" unfolding w1_def by (rule fold_UnMap_frame)
  have st1: "same_tree w w1" using c1 by (rule cio_same_tree)
  have "same_tree w1 w2" by (simp add: same_tree_def w2_def)
  with st1 have st: "same_tree w w2" by (rule same_tree_trans)
  have t2: "is_subtree w2 t" using t(1) st by (simp add: is_subtree_same_tree)
  have ch2: "is_chain w2 this ps" using ch st by (simp add: is_chain_same_tree)
  from NeedRedraw_chain [OF ch2] obtain w3 where n: "NeedRedraw w2 this = Some w3"
    and c3: "cache_only w2 w3" by blast
  have t3: "is_subtree w3 t" using t2 c3 by (simp add: is_subtree_cache_only)
  define w4 where "w4 = fold (\<lambda>n w'. set_dirty w' n) (nodes t) w3"
  have g: "GPoseDirtyTree w3 this = Some w4"
    using GPoseDirtyTree_nodes [OF t3] t(2) by (simp add: w4_def)
  have c4: "cache_only w3 w4" unfolding w4_def by (rule fold_set_dirty_cache_only)
  have c24: "cache_only w2 w4" using c3 c4 by (rule cache_only_trans)
  have t4: "is_subtree w4 t" using t3 c4 by (simp add: is_subtree_cache_only)
  have ch4: "is_chain w4 (root t) ps" using ch2 c24 t(2) by (simp add: is_chain_cache_only)
  from MapWithChildren_chain [OF t4 ch4] obtain w5 where m: "MapWithChildren w4 this = Some w5"
    and c5: "cache_index_only w4 w5"
    using t(2) by auto
  have c25: "cache_index_only w2 w5"
    using cache_only_imp_index [OF c24] c5 by (rule cache_index_only_trans)
  have w2': "upd (upd w1 this (\<lambda>m. m\<lparr>pose := p\<lparr>pose_a := normalize (pose_a p)\<rparr>\<rparr>)) this
                (\<lambda>m. m\<lparr>pose := (pose m)\<lparr>pose_a := normalize (pose_a (pose m))\<rparr>\<rparr>) = w2"
    by (simp add: w2_def upd_def normalize_idem)
  have s: "SetPose w this p = Some (CallCallbacks w5 this cb_pose)"
    using ne u n g m by (simp add: SetPose_def Let_def w2')
  have "UnMapWithChildren w this = Some w1
      \<and> NeedRedraw w2 this = Some w3
      \<and> cache_only w2 w3
      \<and> GPoseDirtyTree w3 this = Some w4
      \<and> MapWithChildren w4 this = Some w5
      \<and> cache_index_only w2 w5
      \<and> SetPose w this p = Some (CallCallbacks w5 this cb_pose)"
    using u n c3 g m c25 s by (intro conjI)
  then show ?thesis unfolding w1_def w2_def w4_def by blast
qed

lemma fold_pick: "fold pick hs h = (case last_hit hs of None \<Rightarrow> h | Some m \<Rightarrow> Some m)"
proof (induction hs arbitrary: h rule: rev_induct)
  case Nil
  then show ?case by (simp add: last_hit_def hits_def)
next
  case (snoc x xs)
  then show ?case
    by (cases x) (simp_all add: last_hit_def hits_def pick_def)
qed

lemma last_hit_None: "(last_hit hs = None) = (\<forall>h \<in> set hs. h = None)"
  by (induction hs) (auto simp: last_hit_def hits_def split: option.splits)

lemma World_Raytrace_cache_only:
  assumes "cache_only w w'"
  shows "World_Raytrace w' g r collision_match f z = World_Raytrace w g r collision_match f z"
proof -
  have "collision_match w' = collision_match w"
    by (intro ext) (simp add: collision_match_def cache_only_fields [OF assms])
  then show ?thesis
    by (simp add: World_Raytrace_def MetersToPixels_def block_def cache_only_fields [OF assms])
qed

lemma edge_hit_cache_only:
  "cache_only w w' \<Longrightarrow> edge_hit w' m ps pd vs i = edge_hit w m ps pd vs i"
  by (simp add: edge_hit_def World_Raytrace_cache_only body_frame_cache_only)

lemma Raytrace_chain:
  assumes "is_chain w m ps"
  shows "\<exists>w'. Raytrace w m p r collision_match z
            = Some (World_Raytrace w (pose_sum (body_frame w m ps) p) r collision_match m z, w')
          \<and> cache_only w w'"
proof -
  from LocalToGlobal_chain [OF assms] obtain w'
    where "LocalToGlobal w m p = Some (pose_sum (body_frame w m ps) p, w')" and c: "cache_only w w'"
    by blast
  then show ?thesis
    by (auto simp: Raytrace_def World_Raytrace_cache_only [OF c])
qed

lemma edge_step_chain:
  assumes "is_chain w m ps"
  shows "\<exists>w'. edge_step m pd vs i (h, w) = Some (pick (edge_hit w m ps pd vs i) h, w')
           \<and> cache_only w w'"
  using Raytrace_chain [OF assms, of "pose_sum pd (edge_pose vs i)" "edge_range vs i" True]
  by (auto simp: edge_step_def edge_hit_def edge_pose_def edge_range_def Let_def pick_def
        split: option.splits)

lemma fold_edge_step:
  "is_chain w m ps \<Longrightarrow>
     \<exists>w'. foldM_opt (edge_step m pd vs) is (h, w)
             = Some (fold pick (map (edge_hit w m ps pd vs) is) h, w')
          \<and> cache_only w w'"
proof (induction "is" arbitrary: h w)
  case Nil
  then show ?case by (simp add: cache_only_refl)
next
  case (Cons i "is")
  from edge_step_chain [OF Cons.prems] obtain w1
    where 1: "edge_step m pd vs i (h, w) = Some (pick (edge_hit w m ps pd vs i) h, w1)"
      and c1: "cache_only w w1" by blast
  from Cons.prems c1 have "is_chain w1 m ps" by (simp add: is_chain_cache_only)
  from Cons.IH [OF this, of "pick (edge_hit w m ps pd vs i) h"] obtain w2
    where 2: "foldM_opt (edge_step m pd vs) is (pick (edge_hit w m ps pd vs i) h, w1)
             = Some (fold pick (map (edge_hit w1 m ps pd vs) is) (pick (edge_hit w m ps pd vs i) h), w2)"
      and c2: "cache_only w1 w2" by blast
  have "map (edge_hit w1 m ps pd vs) is = map (edge_hit w m ps pd vs) is"
    by (simp add: edge_hit_cache_only [OF c1])
  with 1 2 cache_only_trans [OF c1 c2] show ?case by simp
qed

lemma fold_blocks_edge_step:
  "is_chain w m ps \<Longrightarrow>
     \<exists>w'. foldM_opt (\<lambda>b. foldM_opt (edge_step m pd (pts b)) [0..<length (pts b)]) bs (h, w)
             = Some (fold pick (concat (map (\<lambda>b. map (edge_hit w m ps pd (pts b)) [0..<length (pts b)]) bs)) h, w')
          \<and> cache_only w w'"
proof (induction bs arbitrary: h w)
  case Nil
  then show ?case by (simp add: cache_only_refl)
next
  case (Cons b bs)
  from fold_edge_step [OF Cons.prems] obtain w1
    where 1: "foldM_opt (edge_step m pd (pts b)) [0..<length (pts b)] (h, w)
             = Some (fold pick (map (edge_hit w m ps pd (pts b)) [0..<length (pts b)]) h, w1)"
      and c1: "cache_only w w1" by blast
  from Cons.prems c1 have "is_chain w1 m ps" by (simp add: is_chain_cache_only)
  from Cons.IH [OF this] obtain w2
    where 2: "foldM_opt (\<lambda>b. foldM_opt (edge_step m pd (pts b)) [0..<length (pts b)]) bs
                (fold pick (map (edge_hit w m ps pd (pts b)) [0..<length (pts b)]) h, w1)
             = Some (fold pick (concat (map (\<lambda>b. map (edge_hit w1 m ps pd (pts b)) [0..<length (pts b)]) bs))
                       (fold pick (map (edge_hit w m ps pd (pts b)) [0..<length (pts b)]) h), w2)"
      and c2: "cache_only w1 w2" by blast
  have "map (\<lambda>b. map (edge_hit w1 m ps pd (pts b)) [0..<length (pts b)]) bs
      = map (\<lambda>b. map (edge_hit w m ps pd (pts b)) [0..<length (pts b)]) bs"
    by (simp add: edge_hit_cache_only [OF c1])
  with 1 2 cache_only_trans [OF c1 c2] show ?case by simp
qed

lemma TestCollision_run:
  assumes "is_chain w m ps" and "blocks (mem w m) \<noteq> []"
  shows "\<exists>w2 w'. foldM_opt (\<lambda>b. foldM_opt (edge_step m pd (pts b)) [0..<length (pts b)])
                    (blocks (mem (UnMap w m) m)) (None, UnMap w m)
                  = Some (last_hit (edge_hits (UnMap w m) m ps pd), w2)
           \<and> cache_only (UnMap w m) w2
           \<and> Map w2 m = Some w'
           \<and> TestCollision w m pd = Some (last_hit (edge_hits (UnMap w m) m ps pd), w')
           \<and> cache_index_only w w'"
proof -
  let ?w1 = "UnMap w m"
  have c1: "cache_index_only w ?w1" by (rule UnMap_frame)
  have ch1: "is_chain ?w1 m ps" using assms(1) c1 by (simp add: is_chain_cio)
  from fold_blocks_edge_step [OF ch1, of pd "blocks (mem ?w1 m)" None] obtain w2
    where 2: "foldM_opt (\<lambda>b. foldM_opt (edge_step m pd (pts b)) [0..<length (pts b)])
                (blocks (mem ?w1 m)) (None, ?w1)
              = Some (fold pick (edge_hits ?w1 m ps pd) None, w2)"
      and c2: "cache_only ?w1 w2"
    unfolding edge_hits_def by blast
  from ch1 c2 have "is_chain w2 m ps" by (simp add: is_chain_cache_only)
  from Map_chain [OF this] obtain w3 where 3: "Map w2 m = Some w3"
    and c3: "cache_index_only w2 w3" by blast
  have c: "cache_index_only w w3"
    using c1 cache_only_imp_index [OF c2] c3 by (blast intro: cache_index_only_trans)
  have "fold pick (edge_hits ?w1 m ps pd) None = last_hit (edge_hits ?w1 m ps pd)"
    by (simp add: fold_pick split: option.splits)
  with 2 3 c c2 assms(2) show ?thesis
    by (simp add: TestCollision_def Let_def)
qed

lemma TestCollision_chain:
  assumes "is_chain w m ps" and "blocks (mem w m) \<noteq> []"
  shows "\<exists>w'. TestCollision w m pd = Some (last_hit (edge_hits (UnMap w m) m ps pd), w')
           \<and> cache_index_only w w'"
  using TestCollision_run [OF assms, of pd] by blast


subsection \<open>The kinematic update, ticks, and the example worlds evaluated\<close>

lemma TestCollision_total:
  assumes "is_chain w m ps"
  shows "\<exists>w'. TestCollision w m pd =
            Some (if blocks (mem w m) = [] then None else last_hit (edge_hits (UnMap w m) m ps pd), w')
           \<and> cache_index_only w w'"
proof (cases "blocks (mem w m) = []")
  case True
  then show ?thesis by (simp add: TestCollision_def cache_index_only_refl)
next
  case False
  with TestCollision_chain [OF assms False, of pd] show ?thesis by auto
qed

lemma trail_checkpoint_fields:
  "parent (mem (trail_checkpoint w this) n) = parent (mem w n)"
  "children (mem (trail_checkpoint w this) n) = children (mem w n)"
  "pose (mem (trail_checkpoint w this) n) = pose (mem w n)"
  "velocity (mem (trail_checkpoint w this) n) = velocity (mem w n)"
  "stall (mem (trail_checkpoint w this) n) = stall (mem w n)"
  "disabled (mem (trail_checkpoint w this) n) = disabled (mem w n)"
  "blocks (mem (trail_checkpoint w this) n) = blocks (mem w n)"
  "geom (mem (trail_checkpoint w this) n) = geom (mem w n)"
  "obstacle_return (mem (trail_checkpoint w this) n) = obstacle_return (mem w n)"
  "ppm (trail_checkpoint w this) = ppm w"
  "counters (trail_checkpoint w this) = counters w"
  "next_link (trail_checkpoint w this) = next_link w"
  "interval_sim (trail_checkpoint w this) = interval_sim w"
  "updates (trail_checkpoint w this) = updates w"
  "sim_time (trail_checkpoint w this) = sim_time w"
  "events (trail_checkpoint w this) = events w"
  "index (trail_checkpoint w this) = index w"
  by (simp_all add: trail_checkpoint_def Let_def)

lemma trail_checkpoint_same_tree: "same_tree w (trail_checkpoint w this)"
  by (simp add: same_tree_def trail_checkpoint_fields)

lemma pose_delta_trail_checkpoint: "pose_delta (trail_checkpoint w this) this = pose_delta w this"
  by (simp add: pose_delta_def trail_checkpoint_fields)

lemma SetStall_fields:
  "parent (mem (SetStall w this b) n) = parent (mem w n)"
  "children (mem (SetStall w this b) n) = children (mem w n)"
  "pose (mem (SetStall w this b) n) = pose (mem w n)"
  "trail (mem (SetStall w this b) n) = trail (mem w n)"
  "disabled (mem (SetStall w this b) n) = disabled (mem w n)"
  "velocity (mem (SetStall w this b) n) = velocity (mem w n)"
  "stall (mem (SetStall w this b) this) = b"
  "updates (SetStall w this b) = updates w"
  "sim_time (SetStall w this b) = sim_time w"
  "interval_sim (SetStall w this b) = interval_sim w"
  "index (SetStall w this b) = index w"
  "events (SetStall w this b) = events w @ [Callback this cb_stall]"
  by (simp_all add: SetStall_def CallCallbacks_def)

lemma SetStall_same_tree: "same_tree w (SetStall w this b)"
  by (simp add: same_tree_def SetStall_fields)

lemma CallCallbacks_mem [simp]: "mem (CallCallbacks w this k) = mem w"
  by (simp add: CallCallbacks_def)

lemma CallCallbacks_fields [simp]:
  "updates (CallCallbacks w this k) = updates w"
  "sim_time (CallCallbacks w this k) = sim_time w"
  "interval_sim (CallCallbacks w this k) = interval_sim w"
  "index (CallCallbacks w this k) = index w"
  "events (CallCallbacks w this k) = events w @ [Callback this k]"
  by (simp_all add: CallCallbacks_def)

lemma SetPose_effect:
  assumes t: "is_subtree w t" "root t = this" and ch: "is_chain w this ps"
  shows "\<exists>w'. SetPose w this p = Some w'
          \<and> pose (mem w' this) = (if pose (mem w this) = p then p else p\<lparr>pose_a := normalize (pose_a p)\<rparr>)
          \<and> (\<forall>n. n \<noteq> this \<longrightarrow> pose (mem w' n) = pose (mem w n))
          \<and> (\<forall>n. stall (mem w' n) = stall (mem w n) \<and> trail (mem w' n) = trail (mem w n)
                \<and> disabled (mem w' n) = disabled (mem w n) \<and> velocity (mem w' n) = velocity (mem w n))
          \<and> same_tree w w'
          \<and> updates w' = updates w \<and> sim_time w' = sim_time w \<and> interval_sim w' = interval_sim w
          \<and> events w' = events w @ [Callback this cb_pose]"
proof (cases "pose (mem w this) = p")
  case True
  then show ?thesis by (simp add: SetPose_def same_tree_def)
next
  case False
  from SetPose_changed [OF t ch False] obtain w5
    where c: "cache_index_only (upd (fold (\<lambda>n w'. UnMap w' n) (nodes t) w) this
                                  (\<lambda>m. m\<lparr>pose := p\<lparr>pose_a := normalize (pose_a p)\<rparr>\<rparr>)) w5"
      and s: "SetPose w this p = Some (CallCallbacks w5 this cb_pose)"
    by blast
  note f = cache_index_only_fields [OF c]
  note f1 = cache_index_only_fields [OF fold_UnMap_frame [of w "nodes t"]]
  have "same_tree w (CallCallbacks w5 this cb_pose)"
    by (simp add: same_tree_def f f1)
  with False s show ?thesis
    by (simp add: f f1)
qed

lemma UpdatePose_effect:
  assumes en: "\<not> disabled (mem w this)"
    and t: "is_subtree w t" "root t = this" and ch: "is_chain w this ps"
  shows "\<exists>hit w2 w'.
           TestCollision (trail_checkpoint w this) this (pose_delta w this) = Some (hit, w2)
         \<and> UpdatePose w this = Some w'
         \<and> stall (mem w' this) = (hit \<noteq> None)
         \<and> pose (mem w' this) =
             (if hit \<noteq> None \<or> pose_sum (pose (mem w this)) (pose_delta w this) = pose (mem w this)
              then pose (mem w this)
              else (pose_sum (pose (mem w this)) (pose_delta w this))
                     \<lparr>pose_a := normalize (pose_a (pose (mem w this)) + pose_a (pose_delta w this))\<rparr>)
         \<and> trail (mem w' this) = trail (mem (trail_checkpoint w this) this)
         \<and> same_tree w w'
         \<and> disabled (mem w' this) = disabled (mem w this)
         \<and> velocity (mem w' this) = velocity (mem w this)
         \<and> updates w' = updates w \<and> sim_time w' = sim_time w \<and> interval_sim w' = interval_sim w"
proof -
  let ?w1 = "trail_checkpoint w this"
  let ?p = "pose_delta w this"
  have st1: "same_tree w ?w1" by (rule trail_checkpoint_same_tree)
  have ch1: "is_chain ?w1 this ps" using ch st1 by (simp add: is_chain_same_tree)
  from TestCollision_total [OF ch1, of ?p] obtain hit w2
    where tc: "TestCollision ?w1 this ?p = Some (hit, w2)" and c2: "cache_index_only ?w1 w2"
    by blast
  note f2 = cache_index_only_fields [OF c2]
  have st2: "same_tree w w2"
    using st1 cio_same_tree [OF c2] by (rule same_tree_trans)
  show ?thesis
  proof (cases "hit = None")
    case False
    let ?w' = "SetStall w2 this True"
    have u: "UpdatePose w this = Some ?w'"
      using en tc False by (simp add: UpdatePose_def Let_def pose_delta_trail_checkpoint)
    have "same_tree w ?w'" using st2 SetStall_same_tree by (rule same_tree_trans)
    with tc u False show ?thesis
      by (simp add: SetStall_fields f2 trail_checkpoint_fields)
  next
    case True
    let ?w3 = "SetStall w2 this False"
    have st3: "same_tree w ?w3" using st2 SetStall_same_tree by (rule same_tree_trans)
    have t3: "is_subtree ?w3 t" using t(1) st3 by (simp add: is_subtree_same_tree)
    have ch3: "is_chain ?w3 this ps" using ch st3 by (simp add: is_chain_same_tree)
    have p3: "pose (mem ?w3 this) = pose (mem w this)"
      by (simp add: SetStall_fields f2 trail_checkpoint_fields)
    from SetPose_effect [OF t3 t(2) ch3, of "pose_sum (pose (mem w this)) ?p"] obtain w'
      where sp: "SetPose ?w3 this (pose_sum (pose (mem w this)) ?p) = Some w'"
        and po: "pose (mem w' this) =
                  (if pose (mem ?w3 this) = pose_sum (pose (mem w this)) ?p
                   then pose_sum (pose (mem w this)) ?p
                   else (pose_sum (pose (mem w this)) ?p)
                          \<lparr>pose_a := normalize (pose_a (pose_sum (pose (mem w this)) ?p))\<rparr>)"
        and fr: "\<forall>n. stall (mem w' n) = stall (mem ?w3 n) \<and> trail (mem w' n) = trail (mem ?w3 n)
                \<and> disabled (mem w' n) = disabled (mem ?w3 n) \<and> velocity (mem w' n) = velocity (mem ?w3 n)"
        and st: "same_tree ?w3 w'"
        and wf: "updates w' = updates ?w3" "sim_time w' = sim_time ?w3" "interval_sim w' = interval_sim ?w3"
      by blast
    have u: "UpdatePose w this = Some w'"
      using en tc True sp by (simp add: UpdatePose_def Let_def pose_delta_trail_checkpoint p3)
    have "same_tree w w'" using st3 st by (rule same_tree_trans)
    moreover have "pose_a (pose_sum (pose (mem w this)) ?p) = pose_a (pose (mem w this)) + pose_a ?p"
      by (simp add: pose_sum_def)
    ultimately show ?thesis
      using tc u True po fr wf
      by (auto simp: SetStall_fields f2 trail_checkpoint_fields p3)
  qed
qed

lemma trail_len_add: "trail_len (m + n) u l = trail_len n (u + m) (trail_len m u l)"
  by (induction m arbitrary: u l) simp_all

lemma trail_len_10:
  assumes "u mod 10 = 0"
  shows "trail_len 10 u l = trail_step l"
proof -
  from assms obtain q where u: "u = 10 * q" by (auto simp: mod_eq_0_iff_dvd)
  have m: "\<And>k. k < 10 \<Longrightarrow> (10 * q + k) mod 10 = k" by simp
  have ten: "(10::nat) = Suc (Suc (Suc (Suc (Suc (Suc (Suc (Suc (Suc (Suc 0)))))))))" by simp
  have "trail_len (Suc (Suc (Suc (Suc (Suc (Suc (Suc (Suc (Suc (Suc 0)))))))))) (10 * q) l = trail_step l"
    using m [of 1] m [of 2] m [of 3] m [of 4] m [of 5] m [of 6] m [of 7] m [of 8] m [of 9]
    by (simp add: add.assoc)
  then show ?thesis by (simp only: ten u)
qed

lemma trail_len_tens:
  "u mod 10 = 0 \<Longrightarrow> trail_len (10 * k) u l = (trail_step ^^ k) l"
proof (induction k arbitrary: u l)
  case 0
  then show ?case by simp
next
  case (Suc k)
  have "10 * Suc k = 10 + 10 * k" by simp
  then have "trail_len (10 * Suc k) u l = trail_len (10 * k) (u + 10) (trail_len 10 u l)"
    by (simp only: trail_len_add)
  also have "\<dots> = trail_len (10 * k) (u + 10) (trail_step l)"
    using Suc.prems by (simp only: trail_len_10)
  also have "\<dots> = (trail_step ^^ k) (trail_step l)"
    using Suc.prems by (subst Suc.IH) auto
  finally show ?case by (simp add: funpow_swap1)
qed

lemma trail_step_pow: "l \<le> 101 \<Longrightarrow> (trail_step ^^ k) l = min (l + k) 101"
proof (induction k)
  case 0
  then show ?case by simp
next
  case (Suc k)
  then show ?case by (simp add: trail_step_def min_def)
qed

lemma trail_len_2000: "trail_len 2000 0 0 = 101"
proof -
  have "(2000::nat) = 10 * 200" by simp
  then have "trail_len 2000 0 0 = (trail_step ^^ 200) 0"
    using trail_len_tens [of 0 200 0] by simp
  then show ?thesis by (simp add: trail_step_pow)
qed

lemma trail_checkpoint_length:
  "length (trail (mem (trail_checkpoint w this) this)) =
     (if updates w mod 10 = 0 then trail_step (length (trail (mem w this)))
      else length (trail (mem w this)))"
  by (auto simp: trail_checkpoint_def Let_def trail_step_def)

lemma tick_effect:
  assumes en: "\<not> disabled (mem w this)"
    and t: "is_subtree w t" "root t = this" and ch: "is_chain w this ps"
  shows "\<exists>w'. tick w this = Some w'
          \<and> length (trail (mem w' this)) = trail_len 1 (updates w) (length (trail (mem w this)))
          \<and> updates w' = updates w + 1
          \<and> \<not> disabled (mem w' this) \<and> is_subtree w' t \<and> is_chain w' this ps"
proof -
  let ?w0 = "w\<lparr>sim_time := sim_time w + interval_sim w\<rparr>"
  have st0: "same_tree w ?w0" by (simp add: same_tree_def)
  have en0: "\<not> disabled (mem ?w0 this)" using en by simp
  have t0: "is_subtree ?w0 t" using t(1) st0 by (simp add: is_subtree_same_tree)
  have ch0: "is_chain ?w0 this ps" using ch st0 by (simp add: is_chain_same_tree)
  from UpdatePose_effect [OF en0 t0 t(2) ch0] obtain w1
    where u: "UpdatePose ?w0 this = Some w1"
      and tr: "trail (mem w1 this) = trail (mem (trail_checkpoint ?w0 this) this)"
      and st: "same_tree ?w0 w1" and d: "disabled (mem w1 this) = disabled (mem ?w0 this)"
      and up: "updates w1 = updates ?w0"
    by blast
  let ?w' = "w1\<lparr>updates := updates w1 + 1\<rparr>"
  have "same_tree w1 ?w'" by (simp add: same_tree_def)
  with st0 st have st': "same_tree w ?w'" by (blast intro: same_tree_trans)
  have l: "length (trail (mem ?w' this)) = trail_len 1 (updates w) (length (trail (mem w this)))"
    using tr by (simp add: trail_checkpoint_length)
  have t': "is_subtree ?w' t" using t(1) by (simp only: is_subtree_same_tree [OF st'])
  have ch': "is_chain ?w' this ps" using ch by (simp only: is_chain_same_tree [OF st'])
  have tk: "tick w this = Some ?w'" using u by (simp add: tick_def)
  have d': "\<not> disabled (mem ?w' this)" using d en by simp
  have u': "updates ?w' = updates w + 1" using up by simp
  from tk l u' d' t' ch' show ?thesis by blast
qed

lemma trail_len_Suc: "trail_len (Suc n) u l = trail_len n (u + 1) (trail_len 1 u l)"
  by simp

lemma run_ticks_effect:
  assumes "\<not> disabled (mem w this)" "is_subtree w t" "root t = this" "is_chain w this ps"
  shows "\<exists>w'. run_ticks n w this = Some w'
          \<and> length (trail (mem w' this)) = trail_len n (updates w) (length (trail (mem w this)))"
  using assms
proof (induction n arbitrary: w)
  case 0
  then show ?case by simp
next
  case (Suc n)
  from tick_effect [OF Suc.prems] obtain w1 where 1: "tick w this = Some w1"
    and l: "length (trail (mem w1 this)) = trail_len 1 (updates w) (length (trail (mem w this)))"
    and u: "updates w1 = updates w + 1"
    and h: "\<not> disabled (mem w1 this)" "is_subtree w1 t" "is_chain w1 this ps"
    by blast
  from Suc.IH [OF h(1) h(2) Suc.prems(3) h(3)] obtain w' where
    "run_ticks n w1 this = Some w'"
    "length (trail (mem w' this)) = trail_len n (updates w1) (length (trail (mem w1 this)))"
    by blast
  with 1 l u show ?case
    by (simp only: run_ticks.simps trail_len_Suc) simp
qed

subsection \<open>The well-formed index\<close>

lemma AddBlockPixel_fields:
  "index (AddBlockPixel w c b) = \<lparr>cell = c, addr = next_link w, blk = b\<rparr> # index w"
  "next_link (AddBlockPixel w c b) = Suc (next_link w)"
  "counters (AddBlockPixel w c b) =
     ((counters w)(region_counter (region_of c) := counters w (region_counter (region_of c)) + 1))
       (superregion_counter (superregion_of c) := counters w (superregion_counter (superregion_of c)) + 1)"
  "blocks (mem (AddBlockPixel w c b) n) =
     (if n = fst b
      then (blocks (mem w n))[snd b := (blocks (mem w n) ! snd b)
             \<lparr>rendered_points := rendered_points (blocks (mem w n) ! snd b)
                                   @ [handle_of \<lparr>cell = c, addr = next_link w, blk = b\<rparr>]\<rparr>]
      else blocks (mem w n))"
  by (simp_all add: AddBlockPixel_def RecordRenderPoint_def Let_def upd_block_def handle_of_def)

lemma AddBlockPixel_index_ok:
  assumes ok: "index_ok w" and b: "snd b < length (blocks (mem w (fst b)))"
  shows "index_ok (AddBlockPixel w c b)"
proof -
  let ?e = "\<lparr>cell = c, addr = next_link w, blk = b\<rparr>"
  note f = AddBlockPixel_fields
  from ok have c: "cells_ok w" and h: "handles_ok w" and n: "counters_ok w"
    by (simp_all add: index_ok_def)
  have len: "\<And>n. length (blocks (mem (AddBlockPixel w c b) n)) = length (blocks (mem w n))"
    by (simp add: f)
  have "cells_ok (AddBlockPixel w c b)"
    using c b by (auto simp: cells_ok_def f)
  moreover have "handles_ok (AddBlockPixel w c b)"
    unfolding handles_ok_def
  proof (intro allI impI)
    fix m k
    assume "k < length (blocks (mem (AddBlockPixel w c b) m))"
    then have k: "k < length (blocks (mem w m))" by (simp add: len)
    from h k have r: "rendered_points (block w (m, k))
        = map handle_of (rev (filter (\<lambda>e. blk e = (m, k)) (index w)))"
      by (simp add: handles_ok_def)
    show "rendered_points (block (AddBlockPixel w c b) (m, k))
        = map handle_of (rev (filter (\<lambda>e. blk e = (m, k)) (index (AddBlockPixel w c b))))"
    proof (cases "b = (m, k)")
      case True
      with r k show ?thesis by (simp add: f block_def)
    next
      case False
      then have "m \<noteq> fst b \<or> k \<noteq> snd b" by (cases b) auto
      with r False show ?thesis by (auto simp: f block_def)
    qed
  qed
  moreover have "counters_ok (AddBlockPixel w c b)"
    unfolding counters_ok_def
  proof (intro allI conjI)
    fix r
    from n have 1: "counters w (region_counter r)
          = of_nat (length (filter (\<lambda>e. region_of (cell e) = r) (index w)))"
      and 2: "counters w (superregion_counter r)
          = of_nat (length (filter (\<lambda>e. superregion_of (cell e) = r) (index w)))"
      unfolding counters_ok_def by blast+
    show "counters (AddBlockPixel w c b) (region_counter r)
          = of_nat (length (filter (\<lambda>e. region_of (cell e) = r) (index (AddBlockPixel w c b))))"
      using 1 by (auto simp: f)
    show "counters (AddBlockPixel w c b) (superregion_counter r)
          = of_nat (length (filter (\<lambda>e. superregion_of (cell e) = r) (index (AddBlockPixel w c b))))"
      using 2 by (auto simp: f)
  qed
  ultimately show ?thesis by (simp add: index_ok_def)
qed


lemma index_ok_cong:
  assumes "index w' = index w" and "next_link w' = next_link w" and "counters w' = counters w"
    and "\<And>n. blocks (mem w' n) = blocks (mem w n)"
  shows "index_ok w' = index_ok w"
  by (simp add: index_ok_def cells_ok_def handles_ok_def counters_ok_def block_def assms)

lemma index_ok_cache_only: "cache_only w w' \<Longrightarrow> index_ok w' = index_ok w"
  by (rule index_ok_cong) (simp_all add: cache_only_fields)

lemma blocks_upd_block:
  "blocks (mem (upd_block w b f) n) =
     (if n = fst b then (blocks (mem w n))[snd b := f (blocks (mem w n) ! snd b)] else blocks (mem w n))"
  by (simp add: upd_block_def)

lemma block_upd_block_other: "b' \<noteq> b \<Longrightarrow> block (upd_block w b f) b' = block w b'"
  by (cases b, cases b') (auto simp: block_def blocks_upd_block)

lemma upd_block_index_ok:
  assumes "index_ok w" and "\<And>B. rendered_points (f B) = rendered_points B"
  shows "index_ok (upd_block w b f)"
proof -
  from assms(1) have c: "cells_ok w" and h: "handles_ok w" and n: "counters_ok w"
    by (simp_all add: index_ok_def)
  have "cells_ok (upd_block w b f)"
    using c by (auto simp: cells_ok_def blocks_upd_block)
  moreover have "handles_ok (upd_block w b f)"
    unfolding handles_ok_def
  proof (intro allI impI)
    fix m k
    assume "k < length (blocks (mem (upd_block w b f) m))"
    then have k: "k < length (blocks (mem w m))" by (simp add: blocks_upd_block split: if_splits)
    have "rendered_points (block (upd_block w b f) (m, k)) = rendered_points (block w (m, k))"
    proof (cases "b = (m, k)")
      case True
      with k show ?thesis by (simp add: block_upd_block assms(2))
    next
      case False
      then show ?thesis by (simp add: block_upd_block_other)
    qed
    with h k show "rendered_points (block (upd_block w b f) (m, k))
        = map handle_of (rev (filter (\<lambda>e. blk e = (m, k)) (index (upd_block w b f))))"
      by (simp add: handles_ok_def)
  qed
  moreover have "counters_ok (upd_block w b f)"
    using n by (simp add: counters_ok_def)
  ultimately show ?thesis by (simp add: index_ok_def)
qed

lemma fold_AddBlockPixel_length:
  "length (blocks (mem (fold (\<lambda>c w'. AddBlockPixel w' c b) cs w) n)) = length (blocks (mem w n))"
  by (induction cs arbitrary: w) (simp_all add: AddBlockPixel_fields)

lemma fold_AddBlockPixel_index_ok:
  "index_ok w \<Longrightarrow> snd b < length (blocks (mem w (fst b))) \<Longrightarrow>
     index_ok (fold (\<lambda>c w'. AddBlockPixel w' c b) cs w)"
proof (induction cs arbitrary: w)
  case Nil
  then show ?case by simp
next
  case (Cons c cs)
  have "index_ok (AddBlockPixel w c b)" using Cons.prems by (rule AddBlockPixel_index_ok)
  moreover have "snd b < length (blocks (mem (AddBlockPixel w c b) (fst b)))"
    using Cons.prems(2) by (simp add: AddBlockPixel_fields)
  ultimately show ?case using Cons.IH by simp
qed

lemma fold_AddBlockPixel_index:
  "index (fold (\<lambda>c w'. AddBlockPixel w' c b) cs w) = new_cells (next_link w) b cs @ index w"
  by (induction cs arbitrary: w) (simp_all add: AddBlockPixel_fields)

lemma AddBlockPixel_block:
  "(block (AddBlockPixel w c b) b')\<lparr>rendered_points := r\<rparr> = (block w b')\<lparr>rendered_points := r\<rparr>"
proof (cases "b' = b")
  case False
  then have "fst b' \<noteq> fst b \<or> snd b' \<noteq> snd b" by (cases b, cases b') auto
  then show ?thesis by (auto simp: block_def AddBlockPixel_fields)
next
  case True
  then show ?thesis
    by (cases "snd b < length (blocks (mem w (fst b)))")
       (simp_all add: block_def AddBlockPixel_fields list_update_beyond)
qed

lemma fold_AddBlockPixel_block:
  "(block (fold (\<lambda>c w'. AddBlockPixel w' c b) cs w) b')\<lparr>rendered_points := r\<rparr>
     = (block w b')\<lparr>rendered_points := r\<rparr>"
  by (induction cs arbitrary: w) (simp_all add: AddBlockPixel_block)

lemma AddBlockPixel_block_other: "b' \<noteq> b \<Longrightarrow> block (AddBlockPixel w c b) b' = block w b'"
proof -
  assume "b' \<noteq> b"
  then have "fst b' \<noteq> fst b \<or> snd b' \<noteq> snd b" by (cases b, cases b') auto
  then show ?thesis by (auto simp: block_def AddBlockPixel_fields)
qed

lemma fold_AddBlockPixel_block_other:
  "b' \<noteq> b \<Longrightarrow> block (fold (\<lambda>c w'. AddBlockPixel w' c b) cs w) b' = block w b'"
  by (induction cs arbitrary: w) (simp_all add: AddBlockPixel_block_other)

lemma but_rendered:
  assumes "B'\<lparr>rendered_points := []\<rparr> = B\<lparr>rendered_points := []\<rparr>"
  shows "pts B' = pts B" and "zmin B' = zmin B" and "zmax B' = zmax B"
    and "pts_global_pixels B' = pts_global_pixels B"
    and "global_zmin B' = global_zmin B" and "global_zmax B' = global_zmax B"
  using arg_cong [OF assms, of pts] arg_cong [OF assms, of zmin] arg_cong [OF assms, of zmax]
    arg_cong [OF assms, of pts_global_pixels] arg_cong [OF assms, of global_zmin]
    arg_cong [OF assms, of global_zmax]
  by simp_all

lemma render_index:
  "index (render w b pixels gz) = new_cells (next_link w) b (polygon_pixels pixels) @ index w"
  by (simp add: render_def stg_polygon_3d_def fold_AddBlockPixel_index)

lemma render_length:
  "length (blocks (mem (render w b pixels gz) n)) = length (blocks (mem w n))"
  by (simp add: render_def stg_polygon_3d_def fold_AddBlockPixel_length blocks_upd_block)

lemma render_block_other: "b' \<noteq> b \<Longrightarrow> block (render w b pixels gz) b' = block w b'"
  by (simp add: render_def stg_polygon_3d_def fold_AddBlockPixel_block_other block_upd_block_other)

lemma render_block:
  assumes "snd b < length (blocks (mem w (fst b)))"
  shows "pts (block (render w b pixels gz) b) = pts (block w b)"
    and "zmin (block (render w b pixels gz) b) = zmin (block w b)"
    and "zmax (block (render w b pixels gz) b) = zmax (block w b)"
    and "pts_global_pixels (block (render w b pixels gz) b) = pixels"
    and "global_zmin (block (render w b pixels gz) b) = gz"
    and "global_zmax (block (render w b pixels gz) b) = gz + (zmax (block w b) - zmin (block w b))"
proof -
  let ?w1 = "upd_block w b (\<lambda>B. B\<lparr>pts_global_pixels := pixels, global_zmin := gz,
                              global_zmax := gz + (zmax B - zmin B)\<rparr>)"
  have "(block (render w b pixels gz) b)\<lparr>rendered_points := []\<rparr> = (block ?w1 b)\<lparr>rendered_points := []\<rparr>"
    unfolding render_def stg_polygon_3d_def by (rule fold_AddBlockPixel_block)
  note r = but_rendered [OF this]
  show "pts (block (render w b pixels gz) b) = pts (block w b)"
    by (simp add: r block_upd_block [OF assms])
  show "zmin (block (render w b pixels gz) b) = zmin (block w b)"
    by (simp add: r block_upd_block [OF assms])
  show "zmax (block (render w b pixels gz) b) = zmax (block w b)"
    by (simp add: r block_upd_block [OF assms])
  show "pts_global_pixels (block (render w b pixels gz) b) = pixels"
    by (simp add: r block_upd_block [OF assms])
  show "global_zmin (block (render w b pixels gz) b) = gz"
    by (simp add: r block_upd_block [OF assms])
  show "global_zmax (block (render w b pixels gz) b) = gz + (zmax (block w b) - zmin (block w b))"
    by (simp add: r block_upd_block [OF assms])
qed

lemma render_index_ok:
  assumes "index_ok w" and "snd b < length (blocks (mem w (fst b)))"
  shows "index_ok (render w b pixels gz)"
  unfolding render_def stg_polygon_3d_def
proof (rule fold_AddBlockPixel_index_ok)
  show "index_ok (upd_block w b (\<lambda>B. B\<lparr>pts_global_pixels := pixels, global_zmin := gz,
                              global_zmax := gz + (zmax B - zmin B)\<rparr>))"
    using assms(1) by (rule upd_block_index_ok) simp
  show "snd b < length (blocks (mem (upd_block w b (\<lambda>B. B\<lparr>pts_global_pixels := pixels, global_zmin := gz,
                              global_zmax := gz + (zmax B - zmin B)\<rparr>)) (fst b)))"
    using assms(2) by (simp add: blocks_upd_block)
qed

lemma new_cells_filter:
  "filter (\<lambda>e. Q (blk e)) (new_cells l b cs) = (if Q b then new_cells l b cs else [])"
  by (induction cs arbitrary: l) auto

lemma new_cells_cell: "map cell (new_cells l b cs) = rev cs"
  by (induction cs arbitrary: l) auto

lemma render_footprint:
  "footprint (render w b pixels gz) b' =
     footprint w b' @ (if b' = b then polygon_pixels pixels else [])"
  by (simp add: footprint_def render_index new_cells_filter [where Q = "\<lambda>x. x = b'"] new_cells_cell)

lemma kept_outside_refl: "kept_outside P w w"
  by (simp add: kept_outside_def)

lemma kept_outside_trans:
  "kept_outside P w w1 \<Longrightarrow> kept_outside P w1 w2 \<Longrightarrow> kept_outside P w w2"
  by (simp add: kept_outside_def)

lemma kept_outside_mono:
  assumes "kept_outside P w w'" and "\<And>b. P b \<Longrightarrow> Q b"
  shows "kept_outside Q w w'"
proof -
  have eq: "filter (\<lambda>e. \<not> Q (blk e)) xs = filter (\<lambda>e. \<not> Q (blk e)) (filter (\<lambda>e. \<not> P (blk e)) xs)" for xs
    using assms(2) by (induction xs) auto
  from assms(1) have i: "filter (\<lambda>e. \<not> P (blk e)) (index w') = filter (\<lambda>e. \<not> P (blk e)) (index w)"
    by (simp add: kept_outside_def)
  have "filter (\<lambda>e. \<not> Q (blk e)) (index w')
          = filter (\<lambda>e. \<not> Q (blk e)) (filter (\<lambda>e. \<not> P (blk e)) (index w'))"
    by (rule eq)
  also have "\<dots> = filter (\<lambda>e. \<not> Q (blk e)) (filter (\<lambda>e. \<not> P (blk e)) (index w))"
    by (simp only: i)
  also have "\<dots> = filter (\<lambda>e. \<not> Q (blk e)) (index w)"
    by (rule eq [symmetric])
  finally have "filter (\<lambda>e. \<not> Q (blk e)) (index w') = filter (\<lambda>e. \<not> Q (blk e)) (index w)" .
  moreover have "\<forall>b. \<not> Q b \<longrightarrow> block w' b = block w b"
    using assms by (auto simp: kept_outside_def)
  moreover have "\<forall>n. length (blocks (mem w' n)) = length (blocks (mem w n))"
    using assms(1) by (simp add: kept_outside_def)
  ultimately show ?thesis unfolding kept_outside_def by blast
qed

lemma kept_outside_cache_only: "cache_only w w' \<Longrightarrow> kept_outside P w w'"
  by (simp add: kept_outside_def block_def cache_only_fields)

lemma kept_outside_render: "kept_outside (\<lambda>x. x = b) w (render w b pixels gz)"
  by (simp add: kept_outside_def render_index new_cells_filter [where Q = "\<lambda>x. x \<noteq> b"]
        render_block_other render_length)

lemma kept_outside_footprint:
  assumes "kept_outside P w w'" and "\<not> P b"
  shows "footprint w' b = footprint w b"
proof -
  have eq: "filter (\<lambda>e. blk e = b) xs = filter (\<lambda>e. blk e = b) (filter (\<lambda>e. \<not> P (blk e)) xs)" for xs
    using assms(2) by (induction xs) auto
  from assms(1) have i: "filter (\<lambda>e. \<not> P (blk e)) (index w') = filter (\<lambda>e. \<not> P (blk e)) (index w)"
    by (simp add: kept_outside_def)
  have "filter (\<lambda>e. blk e = b) (index w')
          = filter (\<lambda>e. blk e = b) (filter (\<lambda>e. \<not> P (blk e)) (index w'))"
    by (rule eq)
  also have "\<dots> = filter (\<lambda>e. blk e = b) (filter (\<lambda>e. \<not> P (blk e)) (index w))"
    by (simp only: i)
  also have "\<dots> = filter (\<lambda>e. blk e = b) (index w)"
    by (rule eq [symmetric])
  finally show ?thesis by (simp only: footprint_def)
qed

lemma mapped_at_kept:
  assumes "cache_index_only w w'" and "kept_outside P w w'" and "\<not> P (m, k)"
  shows "mapped_at w' m ps k = mapped_at w m ps k"
proof -
  have "block w' (m, k) = block w (m, k)" using assms(2,3) by (simp add: kept_outside_def)
  then show ?thesis
    by (simp add: mapped_at_def kept_outside_footprint [OF assms(2,3)] vertex_pixel_cio [OF assms(1)]
          body_frame_cio [OF assms(1)])
qed


subsection \<open>What mapping leaves in the index\<close>

lemma block_cache_only: "cache_only w w' \<Longrightarrow> block w' b = block w b"
  by (simp add: block_def cache_only_fields)

lemma footprint_cache_only: "cache_only w w' \<Longrightarrow> footprint w' b = footprint w b"
  by (simp add: footprint_def cache_only_fields)

lemma Block_Map_effect:
  assumes ch: "is_chain w m ps" and k: "k < length (blocks (mem w m))"
  shows "\<exists>w'. Block_Map w (m, k) = Some w' \<and> cache_index_only w w'
            \<and> kept_outside (\<lambda>x. x = (m, k)) w w'
            \<and> (index_ok w \<longrightarrow> index_ok w')
            \<and> (footprint w (m, k) = [] \<longrightarrow> mapped_at w' m ps k)"
proof -
  let ?pix = "map (vertex_pixel w m ps) (pts (block w (m, k)))"
  let ?gz = "if pts (block w (m, k)) = [] then pt3_z (undefined :: stg_point3_t)
             else pose_z (body_frame w m ps) + zmin (block w (m, k))"
  from Block_Map_chain [OF ch k] obtain w1 where c1: "cache_only w w1"
    and bm: "Block_Map w (m, k) = Some (render w1 (m, k) ?pix ?gz)" by blast
  let ?w' = "render w1 (m, k) ?pix ?gz"
  have k1: "snd (m, k) < length (blocks (mem w1 (fst (m, k))))"
    using k by (simp add: cache_only_fields [OF c1])
  have c: "cache_index_only w ?w'" using bm by (rule Block_Map_frame)
  have ko: "kept_outside (\<lambda>x. x = (m, k)) w ?w'"
    using kept_outside_cache_only [OF c1] kept_outside_render by (rule kept_outside_trans)
  have ok: "index_ok w \<longrightarrow> index_ok ?w'"
    using render_index_ok [OF _ k1] by (simp add: index_ok_cache_only [OF c1])
  have cr: "cache_index_only w (render w1 (m, k) pix gz)" for pix gz
    using cache_only_imp_index [OF c1] render_frame by (rule cache_index_only_trans)
  have ma: "mapped_at ?w' m ps k" if "footprint w (m, k) = []"
    using that
    by (simp add: mapped_at_def render_block [OF k1] render_footprint block_cache_only [OF c1]
          footprint_cache_only [OF c1] vertex_pixel_cio [OF cr] body_frame_cio [OF cr])
  from bm c ko ok ma show ?thesis by blast
qed

lemma foldM_Block_Map_effect:
  "is_chain w m ps \<Longrightarrow> distinct ks \<Longrightarrow> \<forall>k \<in> set ks. k < length (blocks (mem w m)) \<Longrightarrow>
     \<exists>w'. foldM_opt (\<lambda>k w'. Block_Map w' (m, k)) ks w = Some w' \<and> cache_index_only w w'
          \<and> kept_outside (\<lambda>x. fst x = m \<and> snd x \<in> set ks) w w'
          \<and> (index_ok w \<longrightarrow> index_ok w')
          \<and> ((\<forall>k \<in> set ks. footprint w (m, k) = []) \<longrightarrow> (\<forall>k \<in> set ks. mapped_at w' m ps k))"
proof (induction ks arbitrary: w)
  case Nil
  then show ?case by (simp add: cache_index_only_refl kept_outside_refl)
next
  case (Cons k ks)
  from Cons.prems have k: "k < length (blocks (mem w m))" and nk: "k \<notin> set ks" by simp_all
  from Block_Map_effect [OF Cons.prems(1) k] obtain w1
    where 1: "Block_Map w (m, k) = Some w1" and c1: "cache_index_only w w1"
      and ko1: "kept_outside (\<lambda>x. x = (m, k)) w w1"
      and ok1: "index_ok w \<longrightarrow> index_ok w1"
      and ma1: "footprint w (m, k) = [] \<longrightarrow> mapped_at w1 m ps k"
    by blast
  have ch1: "is_chain w1 m ps" using Cons.prems(1) c1 by (simp add: is_chain_cio)
  have "\<forall>k \<in> set ks. k < length (blocks (mem w1 m))"
    using Cons.prems(3) by (simp add: cache_index_only_blocks [OF c1])
  with Cons.IH [OF ch1] Cons.prems(2) obtain w2
    where 2: "foldM_opt (\<lambda>k w'. Block_Map w' (m, k)) ks w1 = Some w2"
      and c2: "cache_index_only w1 w2"
      and ko2: "kept_outside (\<lambda>x. fst x = m \<and> snd x \<in> set ks) w1 w2"
      and ok2: "index_ok w1 \<longrightarrow> index_ok w2"
      and ma2: "(\<forall>k \<in> set ks. footprint w1 (m, k) = []) \<longrightarrow> (\<forall>k \<in> set ks. mapped_at w2 m ps k)"
    by auto
  have r: "foldM_opt (\<lambda>k w'. Block_Map w' (m, k)) (k # ks) w = Some w2" using 1 2 by simp
  have c: "cache_index_only w w2" using c1 c2 by (rule cache_index_only_trans)
  have ko: "kept_outside (\<lambda>x. fst x = m \<and> snd x \<in> set (k # ks)) w w2"
  proof (rule kept_outside_trans)
    show "kept_outside (\<lambda>x. fst x = m \<and> snd x \<in> set (k # ks)) w w1"
      using ko1 by (rule kept_outside_mono) auto
    show "kept_outside (\<lambda>x. fst x = m \<and> snd x \<in> set (k # ks)) w1 w2"
      using ko2 by (rule kept_outside_mono) auto
  qed
  have ok: "index_ok w \<longrightarrow> index_ok w2" using ok1 ok2 by blast
  have ma: "\<forall>j \<in> set (k # ks). mapped_at w2 m ps j"
    if f: "\<forall>j \<in> set (k # ks). footprint w (m, j) = []"
  proof -
    have "\<forall>j \<in> set ks. footprint w1 (m, j) = []"
    proof
      fix j assume j: "j \<in> set ks"
      with nk have "(m, j) \<noteq> (m, k)" by auto
      from kept_outside_footprint [OF ko1 this] f j show "footprint w1 (m, j) = []" by simp
    qed
    with ma2 have a: "\<forall>j \<in> set ks. mapped_at w2 m ps j" by blast
    from f ma1 have "mapped_at w1 m ps k" by simp
    moreover have "mapped_at w2 m ps k = mapped_at w1 m ps k"
      using c2 ko2 by (rule mapped_at_kept) (simp add: nk)
    ultimately show ?thesis using a by simp
  qed
  from r c ko ok ma show ?case by blast
qed

lemma Map_effect:
  assumes "is_chain w m ps"
  shows "\<exists>w'. Map w m = Some w' \<and> cache_index_only w w'
            \<and> kept_outside (\<lambda>x. fst x = m) w w'
            \<and> (index_ok w \<longrightarrow> index_ok w')
            \<and> ((\<forall>k < length (blocks (mem w m)). footprint w (m, k) = [])
                 \<longrightarrow> (\<forall>k < length (blocks (mem w m)). mapped_at w' m ps k))"
proof -
  from foldM_Block_Map_effect [OF assms, of "[0..<length (blocks (mem w m))]"] obtain w'
    where 1: "Map w m = Some w'" and c: "cache_index_only w w'"
      and ko: "kept_outside (\<lambda>x. fst x = m \<and> snd x \<in> set [0..<length (blocks (mem w m))]) w w'"
      and ok: "index_ok w \<longrightarrow> index_ok w'"
      and ma: "(\<forall>k \<in> set [0..<length (blocks (mem w m))]. footprint w (m, k) = [])
                 \<longrightarrow> (\<forall>k \<in> set [0..<length (blocks (mem w m))]. mapped_at w' m ps k)"
    unfolding Map_def by auto
  have "kept_outside (\<lambda>x. fst x = m) w w'" using ko by (rule kept_outside_mono) simp
  with 1 c ok ma show ?thesis by auto
qed


lemma block_mapped_chain:
  assumes "is_chain w m ps"
  shows "block_mapped w (m, k) = mapped_at w m ps k"
proof -
  let ?B = "block w (m, k)"
  from map_points_chain [OF assms, of "zmin ?B" "pts ?B" undefined]
  obtain g w' where 1: "map_points w m (zmin ?B) (pts ?B) undefined
        = Some (map (vertex_pixel w m ps) (pts ?B), g, w')"
    and z: "pt3_z g = (if pts ?B = [] then pt3_z (undefined :: stg_point3_t)
                       else pose_z (body_frame w m ps) + zmin ?B)"
    by blast
  show ?thesis
    using z by (auto simp: block_mapped_def mapped_at_def 1)
qed


subsection \<open>What unmapping leaves in the index\<close>

lemma of_nat_word_pred: "0 < n \<Longrightarrow> (of_nat n :: 32 word) - 1 = of_nat (n - 1)"
  by (cases n) simp_all

lemma length_filter_remove:
  "distinct xs \<Longrightarrow> d \<in> set xs \<Longrightarrow>
     length (filter P (filter (\<lambda>e. e \<noteq> d) xs)) = (if P d then length (filter P xs) - 1 else length (filter P xs))"
proof (induction xs)
  case Nil
  then show ?case by simp
next
  case (Cons x xs)
  show ?case
  proof (cases "x = d")
    case True
    with Cons.prems have "d \<notin> set xs" by simp
    then have "filter (\<lambda>e. e \<noteq> d) xs = xs" by (auto simp: filter_id_conv)
    with True show ?thesis by simp
  next
    case False
    with Cons.prems have d: "d \<in> set xs" and dx: "distinct xs" by simp_all
    have "P d \<Longrightarrow> 0 < length (filter P xs)" using d by (simp add: filter_empty_conv) blast
    with False Cons.IH [OF dx d] show ?thesis by auto
  qed
qed

lemma length_filter_pos: "d \<in> set xs \<Longrightarrow> P d \<Longrightarrow> 0 < length (filter P xs)"
  by (simp add: filter_empty_conv) blast

lemma counter_step:
  assumes "distinct xs" and "d \<in> set xs" and "c = (of_nat (length (filter P xs)) :: 32 word)"
  shows "(if P d then c - 1 else c) = of_nat (length (filter P (filter (\<lambda>e. e \<noteq> d) xs)))"
proof (cases "P d")
  case True
  have p: "0 < length (filter P xs)"
    using assms(2) True by (rule length_filter_pos [where P = P])
  have l: "length (filter P (filter (\<lambda>e. e \<noteq> d) xs)) = length (filter P xs) - 1"
    using length_filter_remove [OF assms(1,2), of P] True by (simp only: if_True)
  show ?thesis unfolding l assms(3) using True of_nat_word_pred [OF p] by simp
next
  case False
  have l: "length (filter P (filter (\<lambda>e. e \<noteq> d) xs)) = length (filter P xs)"
    using length_filter_remove [OF assms(1,2), of P] False by (simp only: if_False)
  show ?thesis unfolding l assms(3) using False by simp
qed

lemma UnMap_point_fields:
  "index (UnMap_point pt w) = g_slist_delete_link (index w) (head pt) (link pt)"
  "mem (UnMap_point pt w) = mem w"
  "next_link (UnMap_point pt w) = next_link w"
  by (simp_all add: UnMap_point_def Let_def)

lemma UnMap_point_counters:
  "counters (UnMap_point (handle_of d) w) (region_counter r)
     = (if region_of (cell d) = r then counters w (region_counter r) - 1 else counters w (region_counter r))"
  "counters (UnMap_point (handle_of d) w) (superregion_counter r)
     = (if superregion_of (cell d) = r then counters w (superregion_counter r) - 1
        else counters w (superregion_counter r))"
  by (auto simp: UnMap_point_def Let_def handle_of_def)

lemma UnMap_point_handle:
  assumes dist: "distinct (map addr (index w))" and d: "d \<in> set (index w)" and n: "counters_ok w"
  shows "index (UnMap_point (handle_of d) w) = filter (\<lambda>e. e \<noteq> d) (index w)"
    and "counters_ok (UnMap_point (handle_of d) w)"
proof -
  from dist have dx: "distinct (index w)" and inj: "inj_on addr (set (index w))"
    by (simp_all add: distinct_map)
  show i: "index (UnMap_point (handle_of d) w) = filter (\<lambda>e. e \<noteq> d) (index w)"
    unfolding UnMap_point_fields g_slist_delete_link_def
  proof (rule filter_cong [OF refl])
    fix e assume "e \<in> set (index w)"
    with inj d show "(\<not> (cell e = head (handle_of d) \<and> addr e = link (handle_of d))) = (e \<noteq> d)"
      by (auto simp: handle_of_def dest: inj_onD)
  qed
  show "counters_ok (UnMap_point (handle_of d) w)"
    unfolding counters_ok_def
  proof (intro allI conjI)
    fix r
    from n have 1: "counters w (region_counter r)
          = of_nat (length (filter (\<lambda>e. region_of (cell e) = r) (index w)))"
      and 2: "counters w (superregion_counter r)
          = of_nat (length (filter (\<lambda>e. superregion_of (cell e) = r) (index w)))"
      unfolding counters_ok_def by blast+
    show "counters (UnMap_point (handle_of d) w) (region_counter r)
          = of_nat (length (filter (\<lambda>e. region_of (cell e) = r) (index (UnMap_point (handle_of d) w))))"
      unfolding i UnMap_point_counters
      by (rule counter_step [OF dx d 1])
    show "counters (UnMap_point (handle_of d) w) (superregion_counter r)
          = of_nat (length (filter (\<lambda>e. superregion_of (cell e) = r) (index (UnMap_point (handle_of d) w))))"
      unfolding i UnMap_point_counters
      by (rule counter_step [OF dx d 2])
  qed
qed

lemma fold_UnMap_point:
  "distinct (map addr (index w)) \<Longrightarrow> set ds \<subseteq> set (index w) \<Longrightarrow> distinct ds \<Longrightarrow> counters_ok w \<Longrightarrow>
     index (fold UnMap_point (map handle_of ds) w) = filter (\<lambda>e. e \<notin> set ds) (index w)
     \<and> counters_ok (fold UnMap_point (map handle_of ds) w)
     \<and> mem (fold UnMap_point (map handle_of ds) w) = mem w
     \<and> next_link (fold UnMap_point (map handle_of ds) w) = next_link w"
proof (induction ds arbitrary: w)
  case Nil
  then show ?case by simp
next
  case (Cons d ds)
  let ?w1 = "UnMap_point (handle_of d) w"
  from Cons.prems have d: "d \<in> set (index w)" and nd: "d \<notin> set ds" by simp_all
  note u = UnMap_point_handle [OF Cons.prems(1) d Cons.prems(4)]
  have 1: "distinct (map addr (index ?w1))"
    using Cons.prems(1) by (simp add: u(1) distinct_map_filter)
  have 2: "set ds \<subseteq> set (index ?w1)"
    using Cons.prems(2) nd by (auto simp: u(1))
  have 3: "distinct ds" using Cons.prems(3) by simp
  from Cons.IH [OF 1 2 3 u(2)]
  have i: "index (fold UnMap_point (map handle_of ds) ?w1) = filter (\<lambda>e. e \<notin> set ds) (index ?w1)"
    and r: "counters_ok (fold UnMap_point (map handle_of ds) ?w1)"
      "mem (fold UnMap_point (map handle_of ds) ?w1) = mem ?w1"
      "next_link (fold UnMap_point (map handle_of ds) ?w1) = next_link ?w1"
    by simp_all
  have "filter (\<lambda>e. e \<notin> set ds) (filter (\<lambda>e. e \<noteq> d) (index w))
          = filter (\<lambda>e. e \<notin> set (d # ds)) (index w)"
    unfolding filter_filter by (rule filter_cong) auto
  with i r show ?case by (simp add: u(1) UnMap_point_fields(2,3))
qed

lemma Block_UnMap_effect:
  assumes ok: "index_ok w" and b: "snd b < length (blocks (mem w (fst b)))"
  shows "index (Block_UnMap w b) = filter (\<lambda>e. blk e \<noteq> b) (index w)"
    and "index_ok (Block_UnMap w b)"
    and "kept_outside (\<lambda>x. x = b) w (Block_UnMap w b)"
    and "rendered_points (block (Block_UnMap w b) b) = []"
proof -
  from ok have c: "cells_ok w" and h: "handles_ok w" and n: "counters_ok w"
    by (simp_all add: index_ok_def)
  let ?ds = "rev (filter (\<lambda>e. blk e = b) (index w))"
  let ?w1 = "fold UnMap_point (map handle_of ?ds) w"
  from c have dist: "distinct (map addr (index w))" by (simp add: cells_ok_def)
  then have dx: "distinct (index w)" by (simp add: distinct_map)
  have rp: "rendered_points (block w b) = map handle_of ?ds"
    using h b by (cases b) (simp add: handles_ok_def)
  have "set ?ds \<subseteq> set (index w)" by auto
  moreover have "distinct ?ds" using dx by simp
  ultimately have f: "index ?w1 = filter (\<lambda>e. e \<notin> set ?ds) (index w)"
    "counters_ok ?w1" "mem ?w1 = mem w" "next_link ?w1 = next_link w"
    using fold_UnMap_point [OF dist _ _ n, of ?ds] by simp_all
  have w': "Block_UnMap w b = upd_block ?w1 b (\<lambda>B. B\<lparr>rendered_points := []\<rparr>)"
    by (simp add: Block_UnMap_def Let_def rp)
  have "filter (\<lambda>e. e \<notin> set ?ds) (index w) = filter (\<lambda>e. blk e \<noteq> b) (index w)"
    by (rule filter_cong) auto
  with f(1) show i: "index (Block_UnMap w b) = filter (\<lambda>e. blk e \<noteq> b) (index w)"
    by (simp add: w')
  have bl: "blocks (mem (Block_UnMap w b) n) =
      (if n = fst b then (blocks (mem w n))[snd b := (blocks (mem w n) ! snd b)\<lparr>rendered_points := []\<rparr>]
       else blocks (mem w n))" for n
    by (simp add: w' blocks_upd_block f(3))
  show r: "rendered_points (block (Block_UnMap w b) b) = []"
    using b by (simp add: block_def bl)
  have other: "block (Block_UnMap w b) b' = block w b'" if "b' \<noteq> b" for b'
  proof -
    from that have "fst b' \<noteq> fst b \<or> snd b' \<noteq> snd b" by (cases b, cases b') auto
    then show ?thesis by (auto simp: block_def bl)
  qed
  show "kept_outside (\<lambda>x. x = b) w (Block_UnMap w b)"
    by (simp add: kept_outside_def i other bl)
  have nl: "next_link (Block_UnMap w b) = next_link w" by (simp add: w' f(4))
  have "cells_ok (Block_UnMap w b)"
    using c by (auto simp: cells_ok_def i bl nl distinct_map_filter)
  moreover have "handles_ok (Block_UnMap w b)"
    unfolding handles_ok_def
  proof (intro allI impI)
    fix m k
    assume "k < length (blocks (mem (Block_UnMap w b) m))"
    then have k: "k < length (blocks (mem w m))" by (simp add: bl split: if_splits)
    show "rendered_points (block (Block_UnMap w b) (m, k))
        = map handle_of (rev (filter (\<lambda>e. blk e = (m, k)) (index (Block_UnMap w b))))"
    proof (cases "(m, k) = b")
      case True
      then show ?thesis using r by (simp add: i)
    next
      case False
      have "filter (\<lambda>e. blk e = (m, k)) (filter (\<lambda>e. blk e \<noteq> b) (index w))
            = filter (\<lambda>e. blk e = (m, k)) (index w)"
        unfolding filter_filter using False by (intro filter_cong) auto
      with h k other [OF False] show ?thesis by (simp add: handles_ok_def i)
    qed
  qed
  moreover have "counters_ok (Block_UnMap w b)"
    using f(2) by (simp add: counters_ok_def w')
  ultimately show "index_ok (Block_UnMap w b)" by (simp add: index_ok_def)
qed

lemma fold_Block_UnMap_effect:
  "index_ok w \<Longrightarrow> \<forall>k \<in> set ks. k < length (blocks (mem w m)) \<Longrightarrow>
     index (fold (\<lambda>k w'. Block_UnMap w' (m, k)) ks w)
        = filter (\<lambda>e. \<not> (fst (blk e) = m \<and> snd (blk e) \<in> set ks)) (index w)
     \<and> index_ok (fold (\<lambda>k w'. Block_UnMap w' (m, k)) ks w)
     \<and> kept_outside (\<lambda>x. fst x = m \<and> snd x \<in> set ks) w (fold (\<lambda>k w'. Block_UnMap w' (m, k)) ks w)
     \<and> (\<forall>k \<in> set ks. rendered_points (block (fold (\<lambda>k w'. Block_UnMap w' (m, k)) ks w) (m, k)) = [])"
proof (induction ks arbitrary: w)
  case Nil
  then show ?case by (simp add: kept_outside_refl)
next
  case (Cons k ks)
  let ?w1 = "Block_UnMap w (m, k)"
  let ?w2 = "fold (\<lambda>k w'. Block_UnMap w' (m, k)) ks ?w1"
  from Cons.prems have k: "snd (m, k) < length (blocks (mem w (fst (m, k))))" by simp
  note e = Block_UnMap_effect [OF Cons.prems(1) k]
  have len: "\<And>n. length (blocks (mem ?w1 n)) = length (blocks (mem w n))"
    using e(3) by (simp add: kept_outside_def)
  have "\<forall>k \<in> set ks. k < length (blocks (mem ?w1 m))"
    using Cons.prems(2) by (simp add: len)
  from Cons.IH [OF e(2) this]
  have i2: "index ?w2 = filter (\<lambda>e. \<not> (fst (blk e) = m \<and> snd (blk e) \<in> set ks)) (index ?w1)"
    and ok2: "index_ok ?w2"
    and ko2: "kept_outside (\<lambda>x. fst x = m \<and> snd x \<in> set ks) ?w1 ?w2"
    and r2: "\<forall>k \<in> set ks. rendered_points (block ?w2 (m, k)) = []"
    by simp_all
  have "filter (\<lambda>e. \<not> (fst (blk e) = m \<and> snd (blk e) \<in> set ks)) (filter (\<lambda>e. blk e \<noteq> (m, k)) (index w))
         = filter (\<lambda>e. \<not> (fst (blk e) = m \<and> snd (blk e) \<in> set (k # ks))) (index w)"
    unfolding filter_filter by (rule filter_cong) auto
  with i2 have i: "index ?w2 = filter (\<lambda>e. \<not> (fst (blk e) = m \<and> snd (blk e) \<in> set (k # ks))) (index w)"
    by (simp add: e(1))
  have ko: "kept_outside (\<lambda>x. fst x = m \<and> snd x \<in> set (k # ks)) w ?w2"
  proof (rule kept_outside_trans)
    show "kept_outside (\<lambda>x. fst x = m \<and> snd x \<in> set (k # ks)) w ?w1"
      using e(3) by (rule kept_outside_mono) auto
    show "kept_outside (\<lambda>x. fst x = m \<and> snd x \<in> set (k # ks)) ?w1 ?w2"
      using ko2 by (rule kept_outside_mono) auto
  qed
  have "rendered_points (block ?w2 (m, k)) = []"
  proof (cases "k \<in> set ks")
    case True
    with r2 show ?thesis by blast
  next
    case False
    then have "block ?w2 (m, k) = block ?w1 (m, k)"
      using ko2 by (simp add: kept_outside_def)
    with e(4) show ?thesis by simp
  qed
  with r2 i ok2 ko show ?case by simp
qed

lemma UnMap_effect:
  assumes ok: "index_ok w"
  shows "index (UnMap w m) = filter (\<lambda>e. fst (blk e) \<noteq> m) (index w)"
    and "index_ok (UnMap w m)"
    and "kept_outside (\<lambda>x. fst x = m) w (UnMap w m)"
    and "\<forall>k < length (blocks (mem w m)). rendered_points (block (UnMap w m) (m, k)) = []"
proof -
  note f = fold_Block_UnMap_effect [OF ok, of "[0..<length (blocks (mem w m))]" m]
  from ok have c: "cells_ok w" by (simp add: index_ok_def)
  have "filter (\<lambda>e. \<not> (fst (blk e) = m \<and> snd (blk e) \<in> set [0..<length (blocks (mem w m))])) (index w)
      = filter (\<lambda>e. fst (blk e) \<noteq> m) (index w)"
    using c by (intro filter_cong) (auto simp: cells_ok_def)
  with f show "index (UnMap w m) = filter (\<lambda>e. fst (blk e) \<noteq> m) (index w)"
    by (simp add: UnMap_def)
  from f show "index_ok (UnMap w m)" by (simp add: UnMap_def)
  from f have "kept_outside (\<lambda>x. fst x = m \<and> snd x \<in> set [0..<length (blocks (mem w m))]) w (UnMap w m)"
    by (simp add: UnMap_def)
  then show "kept_outside (\<lambda>x. fst x = m) w (UnMap w m)"
    by (rule kept_outside_mono) simp
  from f show "\<forall>k < length (blocks (mem w m)). rendered_points (block (UnMap w m) (m, k)) = []"
    by (simp add: UnMap_def)
qed



subsection \<open>The dirty flags after mapping\<close>






lemma dirty_upd_block [simp]: "gpose_dirty (mem (upd_block w b f) n) = gpose_dirty (mem w n)"
  by (simp add: upd_block_def)

lemma dirty_AddBlockPixel [simp]: "gpose_dirty (mem (AddBlockPixel w c b) n) = gpose_dirty (mem w n)"
  by (simp add: AddBlockPixel_def RecordRenderPoint_def Let_def upd_block_def)

lemma dirty_fold_AddBlockPixel [simp]:
  "gpose_dirty (mem (fold (\<lambda>c w'. AddBlockPixel w' c b) cs w) n) = gpose_dirty (mem w n)"
  by (induction cs arbitrary: w) simp_all








subsection \<open>Unmapping and mapping a subtree, and the index around the collision test\<close>

lemma block_in_set:
  assumes "\<forall>k < length (blocks (mem w n)). rendered_points (block w (n, k)) = []"
  shows "\<forall>B \<in> set (blocks (mem w n)). rendered_points B = []"
  using assms by (auto simp: block_def in_set_conv_nth)




lemma TestCollision_index:
  assumes ch: "is_chain w m ps" and ne: "blocks (mem w m) \<noteq> []" and ok: "index_ok w"
  shows "\<exists>w'. TestCollision w m pd = Some (last_hit (edge_hits (UnMap w m) m ps pd), w')
           \<and> cache_index_only w w'
           \<and> index (UnMap w m) = filter (\<lambda>e. fst (blk e) \<noteq> m) (index w)
           \<and> (\<forall>B \<in> set (blocks (mem (UnMap w m) m)). rendered_points B = [])
           \<and> index_ok (UnMap w m)
           \<and> (\<forall>k < length (blocks (mem w' m)). block_mapped w' (m, k))
           \<and> filter (\<lambda>e. fst (blk e) \<noteq> m) (index w') = index (UnMap w m)
           \<and> index_ok w'"
proof -
  let ?w1 = "UnMap w m"
  note e = UnMap_effect [OF ok, of m]
  from TestCollision_run [OF ch ne, of pd] obtain w2 w'
    where c2: "cache_only ?w1 w2" and mp: "Map w2 m = Some w'"
      and tc: "TestCollision w m pd = Some (last_hit (edge_hits ?w1 m ps pd), w')"
      and c: "cache_index_only w w'"
    by blast
  have c1: "cache_index_only w ?w1" by (rule UnMap_frame)
  have ch2: "is_chain w2 m ps"
    using ch c1 c2 by (simp add: is_chain_cio is_chain_cache_only)
  have ok2: "index_ok w2" using e(2) by (simp add: index_ok_cache_only [OF c2])
  have i2: "index w2 = index ?w1" using c2 by (rule cache_only_fields)
  from Map_effect [OF ch2] mp have c3: "cache_index_only w2 w'"
    and ko: "kept_outside (\<lambda>x. fst x = m) w2 w'"
    and ok': "index_ok w'"
    and ma: "(\<forall>k < length (blocks (mem w2 m)). footprint w2 (m, k) = [])
                 \<longrightarrow> (\<forall>k < length (blocks (mem w2 m)). mapped_at w' m ps k)"
    using ok2 by auto
  have "footprint w2 (m, k) = []" for k
    by (auto simp: footprint_def i2 e(1) filter_empty_conv)
  with ma have ma': "\<forall>k < length (blocks (mem w2 m)). mapped_at w' m ps k" by blast
  have ch': "is_chain w' m ps" using ch c by (simp add: is_chain_cio)
  have bm: "\<forall>k < length (blocks (mem w' m)). block_mapped w' (m, k)"
    using ma' by (simp add: block_mapped_chain [OF ch'] cache_index_only_blocks [OF c3])
  have "filter (\<lambda>e. fst (blk e) \<noteq> m) (index w') = filter (\<lambda>e. fst (blk e) \<noteq> m) (index w2)"
    using ko by (simp add: kept_outside_def)
  also have "\<dots> = index ?w1" by (simp add: i2 e(1))
  finally have fi: "filter (\<lambda>e. fst (blk e) \<noteq> m) (index w') = index ?w1" .
  have len: "length (blocks (mem ?w1 m)) = length (blocks (mem w m))"
    using e(3) by (simp add: kept_outside_def)
  have rp: "\<forall>B \<in> set (blocks (mem ?w1 m)). rendered_points B = []"
    using e(4) by (intro block_in_set) (simp add: len)
  from tc c e(1) rp e(2) bm fi ok' show ?thesis by blast
qed


subsection \<open>The worlds of the collision scenarios, evaluated\<close>

lemma floor_minus_one [simp]: "\<lfloor>- 1 :: real\<rfloor> = - 1"
  using floor_of_int [of "- 1", where ?'a = real] by simp

lemma rect_block_simps:
  "pts (rect_block bx by w h) =
     [\<lparr>pt_x = bx, pt_y = by\<rparr>, \<lparr>pt_x = bx + w, pt_y = by\<rparr>,
      \<lparr>pt_x = bx + w, pt_y = by + h\<rparr>, \<lparr>pt_x = bx, pt_y = by + h\<rparr>]"
  "zmin (rect_block bx by w h) = 0" "zmax (rect_block bx by w h) = 1"
  "rendered_points (rect_block bx by w h) = []"
  by (simp_all add: rect_block_def StgBlock_init_def)

lemma index_ok_empty:
  assumes "index w = []" and "\<And>r. counters w r = 0"
    and "\<And>n. \<forall>B \<in> set (blocks (mem w n)). rendered_points B = []"
  shows "index_ok w"
proof -
  have "handles_ok w"
    unfolding handles_ok_def
  proof (intro allI impI)
    fix m k assume "k < length (blocks (mem w m))"
    then have "blocks (mem w m) ! k \<in> set (blocks (mem w m))" by (rule nth_mem)
    with assms(3) have "rendered_points (blocks (mem w m) ! k) = []" by blast
    then show "rendered_points (block w (m, k))
        = map handle_of (rev (filter (\<lambda>e. blk e = (m, k)) (index w)))"
      by (simp add: block_def assms(1))
  qed
  then show ?thesis
    by (simp add: index_ok_def cells_ok_def counters_ok_def assms(1,2))
qed

lemma square_pixels:
  "polygon_pixels [(a, - 1), (a + 2, - 1), (a + 2, 1), (a, 1)]
     = [(a, - 1), (a + 1, - 1), (a + 2, - 1), (a + 2, - 1), (a + 2, 0), (a + 2, 1),
        (a + 2, 1), (a + 1, 1), (a, 1), (a, 1), (a, 0), (a, - 1)]"
  by (simp add: polygon_pixels_def line_pixels_def Let_def upto_rec1)

lemma S2_base_simps:
  "parent (mem S2_base n) = None"
  "children (mem S2_base n) = []"
  "pose (mem S2_base 2) = new_pose 0 0 0 0"
  "pose (mem S2_base 3) = new_pose 2 0 0 0"
  "geom_pose (geom (mem S2_base n)) = new_pose 0 0 0 0"
  "blocks (mem S2_base n) = [rect_block (- 0.5) (- 0.5) 1 1]"
  "obstacle_return (mem S2_base n) = 1"
  "disabled (mem S2_base n) = False"
  "trail (mem S2_base n) = []"
  "ppm S2_base = 2" "interval_sim S2_base = 1000000" "updates S2_base = 0"
  "index S2_base = []" "counters S2_base r = 0"
  by (simp_all add: S2_base_def empty_world_def StgModel_init_def)

lemma S2_base_ok: "index_ok S2_base"
  by (rule index_ok_empty) (simp_all add: S2_base_simps rect_block_simps)

lemma S2_mapped_frame: "cache_index_only S2_base S2_mapped"
  unfolding S2_mapped_def by (rule cache_index_only_trans [OF render_frame render_frame])

lemma S2_mapped_ok: "index_ok S2_mapped"
  unfolding S2_mapped_def
  by (intro render_index_ok S2_base_ok) (simp_all add: render_length S2_base_simps)

lemma S2_mapped_index:
  "filter (\<lambda>e. fst (blk e) \<noteq> 2) (index S2_mapped)
     = new_cells (next_link S2_base) (3, 0) (polygon_pixels [(3, - 1), (5, - 1), (5, 1), (3, 1)])"
  by (simp add: S2_mapped_def render_index S2_base_simps
        new_cells_filter [where Q = "\<lambda>x. fst x \<noteq> 2"])

lemma S2_base_block: "block S2_base (n, 0) = rect_block (- 0.5) (- 0.5) 1 1"
  by (simp add: block_def S2_base_simps)

lemma S2_mapped_block:
  "global_zmin (block S2_mapped (3, 0)) = 0" "global_zmax (block S2_mapped (3, 0)) = 1"
  by (simp_all add: S2_mapped_def render_block_other render_block S2_base_simps S2_base_block
        rect_block_simps)

lemma S2_world_same:
  "index (S2_world v) = index S2_mapped" "next_link (S2_world v) = next_link S2_mapped"
  "counters (S2_world v) = counters S2_mapped"
  "blocks (mem (S2_world v) n) = blocks (mem S2_mapped n)"
  by (simp_all add: S2_world_def SetVelocity_def Let_def CallCallbacks_def)

lemma S2_world_fields:
  "parent (mem (S2_world v) n) = None"
  "children (mem (S2_world v) n) = []"
  "pose (mem (S2_world v) n) = pose (mem S2_base n)"
  "geom (mem (S2_world v) n) = geom (mem S2_base n)"
  "obstacle_return (mem (S2_world v) n) = 1"
  "disabled (mem (S2_world v) n) = False"
  "trail (mem (S2_world v) n) = []"
  "velocity (mem (S2_world v) 2) = new_pose v 0 0 0"
  "ppm (S2_world v) = 2" "interval_sim (S2_world v) = 1000000" "updates (S2_world v) = 0"
  by (simp_all add: S2_world_def SetVelocity_def Let_def CallCallbacks_def
        cache_index_only_fields [OF S2_mapped_frame] S2_base_simps)

lemma S2_world_blocks:
  "map pts (blocks (mem (S2_world v) n)) = [pts (rect_block (- 0.5) (- 0.5) 1 1)]"
  "blocks (mem (S2_world v) n) \<noteq> []"
  by (simp_all add: S2_world_same cache_index_only_blocks(2,3) [OF S2_mapped_frame] S2_base_simps)

lemma S2_tree: "is_subtree (S2_world v) (CNode 2 [])" "is_chain (S2_world v) 2 []"
  by (simp_all add: S2_world_fields)

lemma S2_pose_delta: "pose_delta (S2_world v) 2 = new_pose v 0 0 0"
  by (simp add: pose_delta_def S2_world_fields new_pose_def)

lemma S2_checkpoint_ok: "index_ok (trail_checkpoint (S2_world v) 2)"
proof -
  have "index_ok (trail_checkpoint (S2_world v) 2) = index_ok S2_mapped"
    by (rule index_ok_cong) (simp_all add: trail_checkpoint_fields S2_world_same)
  then show ?thesis by (simp add: S2_mapped_ok)
qed

lemma S2_testing_fields:
  "parent (mem (S2_testing v) n) = None"
  "pose (mem (S2_testing v) n) = pose (mem S2_base n)"
  "geom (mem (S2_testing v) n) = geom (mem S2_base n)"
  "obstacle_return (mem (S2_testing v) n) = 1"
  "ppm (S2_testing v) = 2"
  "map pts (blocks (mem (S2_testing v) n)) = [pts (rect_block (- 0.5) (- 0.5) 1 1)]"
  "index (S2_testing v)
     = new_cells (next_link S2_base) (3, 0) (polygon_pixels [(3, - 1), (5, - 1), (5, 1), (3, 1)])"
  "global_zmin (block (S2_testing v) (3, 0)) = 0" "global_zmax (block (S2_testing v) (3, 0)) = 1"
proof -
  let ?W = "trail_checkpoint (S2_world v) 2"
  have c: "cache_index_only ?W (S2_testing v)" unfolding S2_testing_def by (rule UnMap_frame)
  note e = UnMap_effect [OF S2_checkpoint_ok [of v], of 2, folded S2_testing_def]
  note f = cache_index_only_fields [OF c] trail_checkpoint_fields S2_world_fields S2_world_blocks
  show "parent (mem (S2_testing v) n) = None" by (simp add: f)
  show "pose (mem (S2_testing v) n) = pose (mem S2_base n)" by (simp add: f)
  show "geom (mem (S2_testing v) n) = geom (mem S2_base n)" by (simp add: f)
  show "obstacle_return (mem (S2_testing v) n) = 1" by (simp add: f)
  show "ppm (S2_testing v) = 2" by (simp add: f)
  show "map pts (blocks (mem (S2_testing v) n)) = [pts (rect_block (- 0.5) (- 0.5) 1 1)]"
    by (simp add: cache_index_only_blocks(2) [OF c] f)
  show "index (S2_testing v)
     = new_cells (next_link S2_base) (3, 0) (polygon_pixels [(3, - 1), (5, - 1), (5, 1), (3, 1)])"
    by (simp add: e(1) trail_checkpoint_fields S2_world_same S2_mapped_index)
  have "block (S2_testing v) (3, 0) = block ?W (3, 0)"
    using e(3) by (simp add: kept_outside_def)
  also have "\<dots> = block S2_mapped (3, 0)"
    by (simp add: block_def trail_checkpoint_fields S2_world_same)
  finally have b: "block (S2_testing v) (3, 0) = block S2_mapped (3, 0)" .
  show "global_zmin (block (S2_testing v) (3, 0)) = 0" "global_zmax (block (S2_testing v) (3, 0)) = 1"
    by (simp_all add: b S2_mapped_block)
qed

lemma edge_hits_pts:
  "edge_hits w m ps pd =
     concat (map (\<lambda>vs. map (edge_hit w m ps pd vs) [0..<length vs]) (map pts (blocks (mem w m))))"
  by (simp add: edge_hits_def comp_def)

lemma S2_body_frame: "body_frame (S2_testing v) 2 [] = new_pose 0 0 0 0"
  by (simp add: body_frame_def pose_sum_def new_pose_def S2_testing_fields S2_base_simps)

lemma S2_edge_hits:
  "edge_hits (S2_testing v) 2 [] (new_pose 10 0 0 0) = [None, None, None, None]"
  "edge_hits (S2_testing v) 2 [] (new_pose (1 / 2) 0 0 0) = [None, None, None, None]"
  "edge_hits (S2_testing v) 2 [] (new_pose 2 0 0 0) = [Some (3, 0), Some (3, 0), Some (3, 0), Some (3, 0)]"
  by (simp_all add: edge_hits_pts edge_hit_def S2_testing_fields S2_body_frame rect_block_simps
        pose_sum_def new_pose_def edge_pose_def edge_range_def hypot_def atan2_def
        Let_def World_Raytrace_def MetersToPixels_def line_pixels_def upto_rec1
        square_pixels [of 3, simplified] collision_match_def)


lemma S2_TestCollision:
  "\<exists>w'. TestCollision (trail_checkpoint (S2_world v) 2) 2 pd
           = Some (last_hit (edge_hits (S2_testing v) 2 [] pd), w')"
proof -
  have "is_chain (trail_checkpoint (S2_world v) 2) 2 []"
    by (simp add: trail_checkpoint_fields S2_world_fields)
  from TestCollision_total [OF this, of pd] show ?thesis
    by (auto simp: trail_checkpoint_fields S2_world_blocks S2_testing_def)
qed

lemma S2_last_hits:
  "last_hit (edge_hits (S2_testing v) 2 [] (new_pose 10 0 0 0)) = None"
  "last_hit (edge_hits (S2_testing v) 2 [] (new_pose (1 / 2) 0 0 0)) = None"
  "last_hit (edge_hits (S2_testing v) 2 [] (new_pose 2 0 0 0)) = Some 3"
  by (simp_all add: S2_edge_hits last_hit_def hits_def)

lemma S2_update:
  "\<exists>w'. UpdatePose (S2_world v) 2 = Some w'
      \<and> stall (mem w' 2) = (last_hit (edge_hits (S2_testing v) 2 [] (new_pose v 0 0 0)) \<noteq> None)
      \<and> pose (mem w' 2) =
          (if last_hit (edge_hits (S2_testing v) 2 [] (new_pose v 0 0 0)) \<noteq> None \<or> v = 0
           then new_pose 0 0 0 0 else new_pose v 0 0 0)"
proof -
  let ?h = "last_hit (edge_hits (S2_testing v) 2 [] (new_pose v 0 0 0))"
  have en: "\<not> disabled (mem (S2_world v) 2)" by (simp add: S2_world_fields)
  have r: "root (CNode 2 []) = 2" by simp
  have n0: "normalize 0 = 0" by (simp add: normalize_id)
  from S2_TestCollision [of v "new_pose v 0 0 0"] obtain w2
    where tc: "TestCollision (trail_checkpoint (S2_world v) 2) 2 (new_pose v 0 0 0) = Some (?h, w2)"
    by blast
  from UpdatePose_effect [OF en S2_tree(1) r S2_tree(2)] obtain hit w2' w'
    where tc': "TestCollision (trail_checkpoint (S2_world v) 2) 2 (pose_delta (S2_world v) 2)
                  = Some (hit, w2')"
      and u: "UpdatePose (S2_world v) 2 = Some w'"
      and st: "stall (mem w' 2) = (hit \<noteq> None)"
      and po: "pose (mem w' 2) =
             (if hit \<noteq> None \<or> pose_sum (pose (mem (S2_world v) 2)) (pose_delta (S2_world v) 2)
                                  = pose (mem (S2_world v) 2)
              then pose (mem (S2_world v) 2)
              else (pose_sum (pose (mem (S2_world v) 2)) (pose_delta (S2_world v) 2))
                     \<lparr>pose_a := normalize (pose_a (pose (mem (S2_world v) 2))
                                           + pose_a (pose_delta (S2_world v) 2))\<rparr>)"
    by blast
  from tc tc' have h: "hit = ?h" by (simp add: S2_pose_delta)
  have p0: "pose (mem (S2_world v) 2) = new_pose 0 0 0 0"
    by (simp add: S2_world_fields S2_base_simps)
  have ps: "pose_sum (new_pose 0 0 0 0) (new_pose v 0 0 0) = new_pose v 0 0 0"
    by (simp add: pose_sum_def new_pose_def)
  have eq: "(new_pose v 0 0 0 = new_pose 0 0 0 0) = (v = 0)"
    by (simp add: new_pose_def)
  have na: "(new_pose v 0 0 0)\<lparr>pose_a := normalize (pose_a (new_pose 0 0 0 0) + pose_a (new_pose v 0 0 0))\<rparr>
              = new_pose v 0 0 0"
    by (simp add: new_pose_def n0)
  from u st po show ?thesis
    unfolding h S2_pose_delta p0 ps eq na by blast
qed

lemma C2_base_simps:
  "parent (mem C2_base n) = None"
  "pose (mem C2_base 2) = new_pose 0 0 0 0"
  "pose (mem C2_base 3) = new_pose 0.25 (- 0.25) 0 0"
  "pose (mem C2_base 4) = new_pose (- 0.25) 0.25 0 0"
  "geom_pose (geom (mem C2_base n)) = new_pose 0 0 0 0"
  "blocks (mem C2_base 2) = [rect_block (- 0.5) (- 0.5) 1 1]"
  "blocks (mem C2_base 3) = [triangle_block]"
  "blocks (mem C2_base 4) = [triangle_block]"
  "obstacle_return (mem C2_base n) = 1"
  "ppm C2_base = 2" "index C2_base = []" "counters C2_base r = 0"
  by (simp_all add: C2_base_def empty_world_def StgModel_init_def)

lemma triangle_block_simps:
  "zmin triangle_block = 0" "zmax triangle_block = 1" "rendered_points triangle_block = []"
  by (simp_all add: triangle_block_def StgBlock_init_def)

lemma C2_base_ok: "index_ok C2_base"
proof (rule index_ok_empty)
  fix n
  show "\<forall>B \<in> set (blocks (mem C2_base n)). rendered_points B = []"
    by (simp add: C2_base_def empty_world_def StgModel_init_def rect_block_simps triangle_block_simps)
qed (simp_all add: C2_base_simps)

lemma C2_world_frame: "cache_index_only C2_base C2_world"
  unfolding C2_world_def
  by (rule cache_index_only_trans [OF cache_index_only_trans [OF render_frame render_frame] render_frame])

lemma C2_world_ok: "index_ok C2_world"
  unfolding C2_world_def
  by (intro render_index_ok C2_base_ok) (simp_all add: render_length C2_base_simps)

lemma C2_world_fields:
  "parent (mem C2_world n) = None"
  "pose (mem C2_world n) = pose (mem C2_base n)"
  "geom (mem C2_world n) = geom (mem C2_base n)"
  "obstacle_return (mem C2_world n) = 1"
  "ppm C2_world = 2"
  "map pts (blocks (mem C2_world 2)) = [pts (rect_block (- 0.5) (- 0.5) 1 1)]"
  "blocks (mem C2_world 2) \<noteq> []"
  by (simp_all add: cache_index_only_fields [OF C2_world_frame]
        cache_index_only_blocks(2,3) [OF C2_world_frame] C2_base_simps)

lemma dot_pixels: "polygon_pixels [c, c, c] = [c, c, c]"
  by (simp add: polygon_pixels_def line_pixels_def Let_def upt_rec)

lemma C2_world_index:
  "filter (\<lambda>e. fst (blk e) \<noteq> 2) (index C2_world)
     = new_cells (next_link (render C2_base (4, 0) [(- 1, 0), (- 1, 0), (- 1, 0)] 0)) (3, 0)
         [(0, - 1), (0, - 1), (0, - 1)]
       @ new_cells (next_link C2_base) (4, 0) [(- 1, 0), (- 1, 0), (- 1, 0)]"
  by (simp add: C2_world_def render_index C2_base_simps dot_pixels
        new_cells_filter [where Q = "\<lambda>x. fst x \<noteq> 2"])

lemma C2_world_block:
  "global_zmin (block C2_world (3, 0)) = 0" "global_zmax (block C2_world (3, 0)) = 1"
  "global_zmin (block C2_world (4, 0)) = 0" "global_zmax (block C2_world (4, 0)) = 1"
  by (simp_all add: C2_world_def render_block_other render_block render_length C2_base_simps
        block_def [of C2_base] triangle_block_simps)

lemma C2_testing_fields:
  "parent (mem (UnMap C2_world 2) n) = None"
  "pose (mem (UnMap C2_world 2) n) = pose (mem C2_base n)"
  "geom (mem (UnMap C2_world 2) n) = geom (mem C2_base n)"
  "obstacle_return (mem (UnMap C2_world 2) n) = 1"
  "ppm (UnMap C2_world 2) = 2"
  "map pts (blocks (mem (UnMap C2_world 2) 2)) = [pts (rect_block (- 0.5) (- 0.5) 1 1)]"
  "index (UnMap C2_world 2)
     = new_cells (next_link (render C2_base (4, 0) [(- 1, 0), (- 1, 0), (- 1, 0)] 0)) (3, 0)
         [(0, - 1), (0, - 1), (0, - 1)]
       @ new_cells (next_link C2_base) (4, 0) [(- 1, 0), (- 1, 0), (- 1, 0)]"
  "global_zmin (block (UnMap C2_world 2) (3, 0)) = 0" "global_zmax (block (UnMap C2_world 2) (3, 0)) = 1"
  "global_zmin (block (UnMap C2_world 2) (4, 0)) = 0" "global_zmax (block (UnMap C2_world 2) (4, 0)) = 1"
proof -
  have c: "cache_index_only C2_world (UnMap C2_world 2)" by (rule UnMap_frame)
  note e = UnMap_effect [OF C2_world_ok, of 2]
  note f = cache_index_only_fields [OF c] C2_world_fields
  show "parent (mem (UnMap C2_world 2) n) = None" by (simp add: f)
  show "pose (mem (UnMap C2_world 2) n) = pose (mem C2_base n)" by (simp add: f)
  show "geom (mem (UnMap C2_world 2) n) = geom (mem C2_base n)" by (simp add: f)
  show "obstacle_return (mem (UnMap C2_world 2) n) = 1" by (simp add: f)
  show "ppm (UnMap C2_world 2) = 2" by (simp add: f)
  show "map pts (blocks (mem (UnMap C2_world 2) 2)) = [pts (rect_block (- 0.5) (- 0.5) 1 1)]"
    by (simp add: cache_index_only_blocks(2) [OF c] f)
  show "index (UnMap C2_world 2)
     = new_cells (next_link (render C2_base (4, 0) [(- 1, 0), (- 1, 0), (- 1, 0)] 0)) (3, 0)
         [(0, - 1), (0, - 1), (0, - 1)]
       @ new_cells (next_link C2_base) (4, 0) [(- 1, 0), (- 1, 0), (- 1, 0)]"
    by (simp add: e(1) C2_world_index)
  have b: "block (UnMap C2_world 2) (3, 0) = block C2_world (3, 0)"
      "block (UnMap C2_world 2) (4, 0) = block C2_world (4, 0)"
    using e(3) by (simp_all add: kept_outside_def)
  show "global_zmin (block (UnMap C2_world 2) (3, 0)) = 0"
    "global_zmax (block (UnMap C2_world 2) (3, 0)) = 1"
    "global_zmin (block (UnMap C2_world 2) (4, 0)) = 0"
    "global_zmax (block (UnMap C2_world 2) (4, 0)) = 1"
    by (simp_all add: b C2_world_block)
qed

lemma C2_body_frame: "body_frame (UnMap C2_world 2) 2 [] = new_pose 0 0 0 0"
  by (simp add: body_frame_def pose_sum_def new_pose_def C2_testing_fields C2_base_simps)

lemma C2_world_hits:
  "edge_hits (UnMap C2_world 2) 2 [] (new_pose 0 0 0 0) = [Some (3, 0), None, None, Some (4, 0)]"
  by (simp add: edge_hits_pts edge_hit_def C2_testing_fields C2_body_frame rect_block_simps
        pose_sum_def new_pose_def edge_pose_def edge_range_def hypot_def atan2_def
        Let_def World_Raytrace_def MetersToPixels_def line_pixels_def upto_rec1
        collision_match_def)



subsection \<open>The world of the pose change, evaluated, and the mapped state of the example worlds\<close>











lemma render_mapped:
  assumes "k < length (blocks (mem w m))" and "footprint w (m, k) = []"
    and "pixels = map (vertex_pixel w m ps) (pts (block w (m, k)))"
    and "gz = pose_z (body_frame w m ps) + zmin (block w (m, k))"
  shows "mapped_at (render w (m, k) pixels gz) m ps k"
proof -
  have k: "snd (m, k) < length (blocks (mem w (fst (m, k))))" using assms(1) by simp
  note c = render_frame [of w "(m, k)" pixels gz]
  show ?thesis
    unfolding mapped_at_def render_block [OF k] render_footprint assms(2)
      vertex_pixel_cio [OF c] body_frame_cio [OF c]
    by (simp add: assms(3,4))
qed

lemma render_mapped_other:
  "b \<noteq> (m, k) \<Longrightarrow> mapped_at (render w b pixels gz) m ps k = mapped_at w m ps k"
  by (rule mapped_at_kept [OF render_frame kept_outside_render]) simp

lemma S2_mapped_mapped: "mapped_at S2_mapped 2 [] 0" "mapped_at S2_mapped 3 [] 0"
proof -
  have f: "footprint S2_base b = []" for b by (simp add: footprint_def S2_base_simps)
  have bf: "body_frame S2_base 2 [] = new_pose 0 0 0 0" "body_frame S2_base 3 [] = new_pose 2 0 0 0"
    by (simp_all add: body_frame_def S2_base_simps pose_sum_def new_pose_def)
  let ?w1 = "render S2_base (3, 0) [(3, - 1), (5, - 1), (5, 1), (3, 1)] 0"
  note c = render_frame [of S2_base "(3, 0)" "[(3, - 1), (5, - 1), (5, 1), (3, 1)]" 0]
  have "mapped_at ?w1 3 [] 0"
    by (rule render_mapped)
       (simp_all add: S2_base_simps f S2_base_block bf rect_block_simps new_pose_def
          vertex_pixel_def MetersToPixels_def pose_sum_def)
  then show "mapped_at S2_mapped 3 [] 0"
    by (simp add: S2_mapped_def render_mapped_other)
  show "mapped_at S2_mapped 2 [] 0"
    unfolding S2_mapped_def
    by (rule render_mapped)
       (simp_all add: render_length render_footprint f render_block_other S2_base_simps
          S2_base_block vertex_pixel_cio [OF c] body_frame_cio [OF c] bf rect_block_simps
          new_pose_def vertex_pixel_def MetersToPixels_def pose_sum_def)
qed

lemma S2_world_mapped: "block_mapped (S2_world v) (2, 0)" "block_mapped (S2_world v) (3, 0)"
proof -
  have vp: "vertex_pixel (S2_world v) m [] = vertex_pixel S2_mapped m []" for m
    by (rule ext)
       (simp add: vertex_pixel_def body_frame_def MetersToPixels_def S2_world_fields
          cache_index_only_fields [OF S2_mapped_frame] S2_base_simps)
  have "mapped_at (S2_world v) m [] 0 = mapped_at S2_mapped m [] 0" for m
    by (simp add: mapped_at_def footprint_def block_def S2_world_same vp
          body_frame_def S2_world_fields cache_index_only_fields [OF S2_mapped_frame])
  then show "block_mapped (S2_world v) (2, 0)" "block_mapped (S2_world v) (3, 0)"
    by (simp_all add: block_mapped_chain [OF S2_tree(2)] S2_mapped_mapped
          block_mapped_chain [of "S2_world v" 3 "[]"] S2_world_fields)
qed

lemma C2_world_mapped:
  "block_mapped C2_world (2, 0)" "block_mapped C2_world (3, 0)" "block_mapped C2_world (4, 0)"
proof -
  have f: "footprint C2_base b = []" for b by (simp add: footprint_def C2_base_simps)
  have bf: "body_frame C2_base 2 [] = new_pose 0 0 0 0"
      "body_frame C2_base 3 [] = new_pose (1 / 4) (- (1 / 4)) 0 0"
      "body_frame C2_base 4 [] = new_pose (- (1 / 4)) (1 / 4) 0 0"
    by (simp_all add: body_frame_def C2_base_simps pose_sum_def new_pose_def)
  have tp: "pts triangle_block
      = [\<lparr>pt_x = - 0.1, pt_y = - 0.1\<rparr>, \<lparr>pt_x = 0.1, pt_y = - 0.1\<rparr>, \<lparr>pt_x = 0, pt_y = 0.1\<rparr>]"
    by (simp add: triangle_block_def StgBlock_init_def)
  let ?w1 = "render C2_base (4, 0) [(- 1, 0), (- 1, 0), (- 1, 0)] 0"
  let ?w2 = "render ?w1 (3, 0) [(0, - 1), (0, - 1), (0, - 1)] 0"
  note c1 = render_frame [of C2_base "(4, 0)" "[(- 1, 0), (- 1, 0), (- 1, 0)]" 0]
  note c2 = cache_index_only_trans [OF c1 render_frame [of ?w1 "(3, 0)" "[(0, - 1), (0, - 1), (0, - 1)]" 0]]
  have b: "block C2_base (2, 0) = rect_block (- 0.5) (- 0.5) 1 1"
      "block C2_base (3, 0) = triangle_block" "block C2_base (4, 0) = triangle_block"
    by (simp_all add: block_def C2_base_simps)
  have "mapped_at ?w1 4 [] 0"
    by (rule render_mapped)
       (simp_all add: C2_base_simps f b bf tp triangle_block_simps new_pose_def
          vertex_pixel_def MetersToPixels_def pose_sum_def)
  then have m4: "mapped_at C2_world 4 [] 0"
    by (simp add: C2_world_def render_mapped_other)
  have "mapped_at ?w2 3 [] 0"
    by (rule render_mapped)
       (simp_all add: render_length render_footprint f render_block_other C2_base_simps b
          vertex_pixel_cio [OF c1] body_frame_cio [OF c1] bf tp triangle_block_simps new_pose_def
          vertex_pixel_def MetersToPixels_def pose_sum_def)
  then have m3: "mapped_at C2_world 3 [] 0"
    by (simp add: C2_world_def render_mapped_other)
  have m2: "mapped_at C2_world 2 [] 0"
    unfolding C2_world_def
    by (rule render_mapped)
       (simp_all add: render_length render_footprint f render_block_other C2_base_simps b
          vertex_pixel_cio [OF c2] body_frame_cio [OF c2] bf rect_block_simps new_pose_def
          vertex_pixel_def MetersToPixels_def pose_sum_def)
  have ch: "is_chain C2_world n []" for n by (simp add: C2_world_fields)
  from m2 m3 m4
  show "block_mapped C2_world (2, 0)" "block_mapped C2_world (3, 0)" "block_mapped C2_world (4, 0)"
    by (simp_all add: block_mapped_chain [OF ch])
qed


section \<open>The claims\<close>

text \<open>
  C3. For a model with a parent, \<^verbatim>\<open>GetGlobalPose\<close> returns the parent's global pose composed
  with the model's own pose (\<open>pose_sum\<close>), with the parent's \<open>size.z\<close> added to the z component;
  for a model without a parent it returns the model's pose. The call returns whenever the
  chain of parents is finite. In scenario S1 (witness) the child's global pose is
  \<open>(1, 1, 0.2, pi/2)\<close>.
\<close>

theorem GetGlobalPose_parent_composition:
  "(parent (mem w m) = None \<longrightarrow> (\<exists>w'. GetGlobalPose w m = Some (pose (mem w m), w')))
   \<and> (parent (mem w m) = Some p \<and> GetGlobalPose w p = Some (parent_global, w1) \<longrightarrow>
        (\<exists>w'. GetGlobalPose w m =
           Some ((pose_sum parent_global (pose (mem w m)))
                   \<lparr>pose_z := pose_z parent_global + pose_z (pose (mem w m))
                               + size_z (geom_size (geom (mem w p)))\<rparr>, w')))
   \<and> (is_chain w m ps \<longrightarrow> (\<exists>g w'. GetGlobalPose w m = Some (g, w')))"
proof (intro conjI impI)
  assume "parent (mem w m) = None"
  then show "\<exists>w'. GetGlobalPose w m = Some (pose (mem w m), w')"
    by (subst GetGlobalPose.simps) (simp add: Let_def)
next
  assume a: "parent (mem w m) = Some p \<and> GetGlobalPose w p = Some (parent_global, w1)"
  then have c: "cache_only w w1"
    using GetGlobalPose_cache_only [of w p "(parent_global, w1)"] by simp
  from a show "\<exists>w'. GetGlobalPose w m =
           Some ((pose_sum parent_global (pose (mem w m)))
                   \<lparr>pose_z := pose_z parent_global + pose_z (pose (mem w m))
                               + size_z (geom_size (geom (mem w p)))\<rparr>, w')"
    by (subst GetGlobalPose.simps)
       (simp add: Let_def cache_only_fields [OF c] pose_sum_def)
next
  assume "is_chain w m ps"
  then show "\<exists>g w'. GetGlobalPose w m = Some (g, w')"
    using GetGlobalPose_chain by blast
qed

theorem GetGlobalPose_parent_composition_witness:
  "parent (mem S1_world 2) = None \<and> parent (mem S1_world 3) = Some 2 \<and> is_chain S1_world 3 [2]
   \<and> (\<exists>w'. GetGlobalPose S1_world 3 = Some (new_pose 1 1 0.2 (pi / 2), w'))"
proof -
  obtain w1 where 1: "GetGlobalPose S1_world 2 = Some (pose (mem S1_world 2), w1)"
    using GetGlobalPose_parent_composition [of S1_world 2] by auto
  have "\<exists>w'. GetGlobalPose S1_world 3 =
           Some ((pose_sum (pose (mem S1_world 2)) (pose (mem S1_world 3)))
                   \<lparr>pose_z := pose_z (pose (mem S1_world 2)) + pose_z (pose (mem S1_world 3))
                               + size_z (geom_size (geom (mem S1_world 2)))\<rparr>, w')"
    using GetGlobalPose_parent_composition [of S1_world 3 2 "pose (mem S1_world 2)" w1] 1
    by simp
  then show ?thesis
    by (simp add: pose_sum_def new_pose_def)
qed

text \<open>
  C5. After \<^verbatim>\<open>SetVelocity(v)\<close> the model is on the world's velocity list if and only if a
  component of \<open>v\<close> is nonzero. The call adds the model when the velocity becomes nonzero,
  removes it when it becomes zero, keeps the list and the models' flags consistent, and fires
  the velocity callback. The hypothesis is the consistency of list and flags that the
  constructor establishes.
\<close>

theorem SetVelocity_velocity_list:
  assumes "velocity_list_ok w"
  shows "(this \<in> set (velocity_list (SetVelocity w this v)))
           = (pose_x v \<noteq> 0 \<or> pose_y v \<noteq> 0 \<or> pose_z v \<noteq> 0 \<or> pose_a v \<noteq> 0)
       \<and> velocity_list_ok (SetVelocity w this v)
       \<and> velocity (mem (SetVelocity w this v) this) = v
       \<and> velocity_list (SetVelocity w this v) =
           (if this \<notin> set (velocity_list w) \<and> velocity_is_nonzero v then this # velocity_list w
            else if this \<in> set (velocity_list w) \<and> \<not> velocity_is_nonzero v
                 then remove1 this (velocity_list w)
                 else velocity_list w)
       \<and> events (SetVelocity w this v) = events w @ [Callback this cb_velocity]"
  using assms
  by (auto simp: SetVelocity_def velocity_list_ok_def CallCallbacks_def Let_def
                 velocity_is_nonzero_def)

theorem SetVelocity_velocity_list_witness:
  "velocity_list_ok empty_world
   \<and> velocity_list (SetVelocity empty_world 3 (new_pose 0 0 0 1)) = [3]
   \<and> velocity_list (SetVelocity (SetVelocity empty_world 3 (new_pose 0 0 0 1)) 3 (new_pose 0 0 0 0)) = []"
proof -
  have h: "velocity_list_ok empty_world"
    by (simp add: velocity_list_ok_def)
  note 1 = SetVelocity_velocity_list [OF h, of 3 "new_pose 0 0 0 1"]
  then have h1: "velocity_list_ok (SetVelocity empty_world 3 (new_pose 0 0 0 1))"
    by simp
  note 2 = SetVelocity_velocity_list [OF h1, of 3 "new_pose 0 0 0 0"]
  from 1 have l1: "velocity_list (SetVelocity empty_world 3 (new_pose 0 0 0 1)) = [3]"
    by (simp add: velocity_is_nonzero_def new_pose_def)
  from 2 l1 have "velocity_list (SetVelocity (SetVelocity empty_world 3 (new_pose 0 0 0 1)) 3 (new_pose 0 0 0 0)) = []"
    by (simp add: velocity_is_nonzero_def new_pose_def)
  with h l1 show ?thesis by simp
qed

text \<open>
  C7 (as amended). \<^verbatim>\<open>Subscribe\<close> runs the startup hook (\<^verbatim>\<open>initfunc\<close> when there is
  one, then the model joins the update list) exactly when the count goes from 0 to 1.
  \<^verbatim>\<open>Unsubscribe\<close> runs the shutdown hook, which removes the model from the update list, on
  every call that leaves the count below 1: on the transition from 1 to 0 and also on a call at
  a count of 0 or less. Both calls keep the update list equal to the set of models with a count
  of at least 1. After three \<^verbatim>\<open>Subscribe\<close> and two \<^verbatim>\<open>Unsubscribe\<close> calls
  \<^verbatim>\<open>initfunc\<close> has run once and shutdown has not run; the third \<^verbatim>\<open>Unsubscribe\<close> runs
  shutdown and the model leaves the update list.
\<close>

theorem Subscribe_Unsubscribe_counting:
  assumes "- (2 ^ 31) < subs (mem w this)" and "subs (mem w this) < 2 ^ 31 - 1"
  shows "events (Subscribe w this) =
           events w @ (if subs (mem w this) = 0
                       then (if initfunc (mem w this) then [InitFunc this] else [])
                            @ [Callback this startup_hook]
                       else [])
       \<and> update_list (Subscribe w this) =
           (if subs (mem w this) = 0 then update_list w @ [this] else update_list w)
       \<and> events (Unsubscribe w this) =
           events w @ (if subs (mem w this) \<le> 1 then [Callback this shutdown_hook] else [])
       \<and> update_list (Unsubscribe w this) =
           (if subs (mem w this) \<le> 1 then remove1 this (update_list w) else update_list w)
       \<and> (update_list_ok w \<longrightarrow>
            update_list_ok (Subscribe w this) \<and> update_list_ok (Unsubscribe w this))
       \<and> (subs (mem w this) = 0 \<and> this \<notin> set (update_list w) \<and> initfunc (mem w this) \<longrightarrow>
            (let w5 = Unsubscribe (Unsubscribe (Subscribe (Subscribe (Subscribe w this) this) this) this) this
             in events w5 = events w @ [InitFunc this, Callback this startup_hook]
                \<and> this \<in> set (update_list w5)
                \<and> events (Unsubscribe w5 this) = events w5 @ [Callback this shutdown_hook]
                \<and> this \<notin> set (update_list (Unsubscribe w5 this))))"
proof (intro conjI impI)
  show "events (Subscribe w this) =
           events w @ (if subs (mem w this) = 0
                       then (if initfunc (mem w this) then [InitFunc this] else [])
                            @ [Callback this startup_hook]
                       else [])"
    by (rule Subscribe_events)
  show "update_list (Subscribe w this) =
           (if subs (mem w this) = 0 then update_list w @ [this] else update_list w)"
    by (rule Subscribe_update_list)
  show "events (Unsubscribe w this) =
           events w @ (if subs (mem w this) \<le> 1 then [Callback this shutdown_hook] else [])"
    by (rule Unsubscribe_events)
  show "update_list (Unsubscribe w this) =
           (if subs (mem w this) \<le> 1 then remove1 this (update_list w) else update_list w)"
    by (rule Unsubscribe_update_list)
next
  assume ok: "update_list_ok w"
  show "update_list_ok (Subscribe w this)"
    using ok by (rule Subscribe_update_list_ok)
  show "update_list_ok (Unsubscribe w this)"
    using ok by (rule Unsubscribe_update_list_ok)
next
  assume a: "subs (mem w this) = 0 \<and> this \<notin> set (update_list w) \<and> initfunc (mem w this)"
  then show "let w5 = Unsubscribe (Unsubscribe (Subscribe (Subscribe (Subscribe w this) this) this) this) this
             in events w5 = events w @ [InitFunc this, Callback this startup_hook]
                \<and> this \<in> set (update_list w5)
                \<and> events (Unsubscribe w5 this) = events w5 @ [Callback this shutdown_hook]
                \<and> this \<notin> set (update_list (Unsubscribe w5 this))"
    by (simp add: Let_def subscription_simps remove1_append)
qed

theorem Subscribe_Unsubscribe_counting_witness:
  "- (2 ^ 31) < subs (mem S5_world 4) \<and> subs (mem S5_world 4) < 2 ^ 31 - 1
   \<and> update_list_ok S5_world
   \<and> subs (mem S5_world 4) = 0 \<and> 4 \<notin> set (update_list S5_world) \<and> initfunc (mem S5_world 4)
   \<and> update_list_ok (Subscribe S5_world 4)
   \<and> events (Unsubscribe (Unsubscribe (Subscribe (Subscribe (Subscribe S5_world 4) 4) 4) 4) 4)
       = [InitFunc 4, Callback 4 startup_hook]
   \<and> events (Unsubscribe (Unsubscribe (Unsubscribe (Subscribe (Subscribe (Subscribe S5_world 4) 4) 4) 4) 4) 4)
       = [InitFunc 4, Callback 4 startup_hook, Callback 4 shutdown_hook]
   \<and> 4 \<notin> set (update_list
        (Unsubscribe (Unsubscribe (Unsubscribe (Subscribe (Subscribe (Subscribe S5_world 4) 4) 4) 4) 4) 4))"
proof -
  have b: "- (2 ^ 31) < subs (mem S5_world 4)" "subs (mem S5_world 4) < 2 ^ 31 - 1"
    by simp_all
  have ok: "update_list_ok S5_world"
    by (simp add: update_list_ok_def)
  show ?thesis
    using Subscribe_Unsubscribe_counting [OF b] ok
    by (simp add: Let_def)
qed

text \<open>
  C7 as stated fails: at a subscription count of 0 (so the transition is from 0 to -1, not from
  1 to 0) \<^verbatim>\<open>Unsubscribe\<close> runs the shutdown hook.
\<close>

theorem Unsubscribe_shutdown_counterexample:
  "\<not> ((Callback 4 shutdown_hook \<in> set (events (Unsubscribe S5_world 4)))
        = (subs (mem S5_world 4) = 1 \<and> subs (mem (Unsubscribe S5_world 4) 4) = 0))"
  by (simp add: subscription_simps)

text \<open>
  C9. The subscription count is not clamped at zero. \<^verbatim>\<open>Unsubscribe\<close> always decrements;
  at a count of 0 it leaves -1 and runs the shutdown hook; it runs the shutdown hook on every
  call that leaves the count below 1, so two unmatched calls run it twice.
\<close>

theorem Unsubscribe_not_clamped:
  assumes "- (2 ^ 31) < subs (mem w this) - 1"
  shows "subs (mem (Unsubscribe w this) this) = subs (mem w this) - 1
       \<and> (subs (mem w this) = 0 \<longrightarrow>
            subs (mem (Unsubscribe w this) this) = - 1
            \<and> events (Unsubscribe w this) = events w @ [Callback this shutdown_hook])
       \<and> (subs (mem (Unsubscribe w this) this) < 1 \<longrightarrow>
            events (Unsubscribe w this) = events w @ [Callback this shutdown_hook]
            \<and> update_list (Unsubscribe w this) = remove1 this (update_list w)
            \<and> events (Unsubscribe (Unsubscribe w this) this)
                = events w @ [Callback this shutdown_hook, Callback this shutdown_hook])"
  by (simp add: subscription_simps)

theorem Unsubscribe_not_clamped_witness:
  "- (2 ^ 31) < subs (mem empty_world 7) - 1 \<and> subs (mem empty_world 7) = 0
   \<and> subs (mem (Unsubscribe empty_world 7) 7) = - 1
   \<and> events (Unsubscribe empty_world 7) = [Callback 7 shutdown_hook]
   \<and> events (Unsubscribe (Unsubscribe empty_world 7) 7)
       = [Callback 7 shutdown_hook, Callback 7 shutdown_hook]"
proof -
  have b: "- (2 ^ 31) < subs (mem empty_world 7) - 1" by simp
  show ?thesis
    using Unsubscribe_not_clamped [OF b] by simp
qed




text \<open>
  C10. \<^verbatim>\<open>IsAntecedent\<close> has no case for a model without a parent. When the chain of parents
  of \<open>m\<close> is finite and the test model is neither \<open>m\<close> nor one of its ancestors, the recursion
  reaches the root and calls through its null parent pointer: the result is the fault, not
  false. When the test model is \<open>m\<close> or an ancestor the result is true. No call returns false.
\<close>

theorem IsAntecedent_no_base_case:
  "(is_chain w m ps \<and> testmod \<notin> Some ` set (m # ps) \<longrightarrow>
      IsAntecedent w (Some m) testmod = Some (Inl NullPointerCall))
   \<and> (is_chain w m ps \<and> testmod \<in> Some ` set (m # ps) \<longrightarrow>
      IsAntecedent w (Some m) testmod = Some (Inr True))
   \<and> IsAntecedent w this testmod \<noteq> Some (Inr False)"
  using IsAntecedent_chain [of w m ps testmod] IsAntecedent_result [of w this testmod "Inr False"]
  by auto

theorem IsAntecedent_no_base_case_witness:
  "is_chain S1_world 3 [2] \<and> Some 5 \<notin> Some ` set [3, 2 :: nat] \<and> Some 2 \<in> Some ` set [3, 2 :: nat]
   \<and> IsAntecedent S1_world (Some 3) (Some 5) = Some (Inl NullPointerCall)
   \<and> IsAntecedent S1_world (Some 3) None = Some (Inl NullPointerCall)
   \<and> IsAntecedent S1_world (Some 3) (Some 2) = Some (Inr True)"
  using IsAntecedent_no_base_case [of S1_world 3 "[2]" "Some 5"]
        IsAntecedent_no_base_case [of S1_world 3 "[2]" None]
        IsAntecedent_no_base_case [of S1_world 3 "[2]" "Some 2"]
  by simp





text \<open>
  C2 (as amended). \<^verbatim>\<open>TestCollision(posedelta)\<close> on a model without blocks reports no
  collision and changes nothing. Otherwise, for a model with a finite chain of parents in a
  world whose index is well formed, it unmaps the model (the index loses exactly the cells of
  its blocks, which forget their handles), raytraces along every edge \<open>(pt[i], pt[i+1 mod n])\<close>
  of every block, displaced by \<open>posedelta\<close>, with the predicate \<^verbatim>\<open>collision_match\<close>, which
  accepts a block iff its owner is not the mover and has a nonzero \<^verbatim>\<open>obstacle_return\<close>, and
  maps the model again before it returns: in the final world every block of the model is
  mapped, the cells of all other models are as they were, and the index is well formed. Every
  hit overwrites the result: the model returned owns the block hit by the last edge, in loop
  order, whose ray hit anything; no collision is reported iff no edge hits.
\<close>

theorem TestCollision_reports_last_hit:
  "(blocks (mem w this) = [] \<longrightarrow> TestCollision w this posedelta = Some (None, w))
   \<and> (blocks (mem w this) \<noteq> [] \<and> is_chain w this ps \<and> index_ok w \<longrightarrow>
        (\<exists>w'. TestCollision w this posedelta
                 = Some (last_hit (edge_hits (UnMap w this) this ps posedelta), w')
             \<and> index (UnMap w this) = filter (\<lambda>e. fst (blk e) \<noteq> this) (index w)
             \<and> (\<forall>B \<in> set (blocks (mem (UnMap w this) this)). rendered_points B = [])
             \<and> index_ok (UnMap w this)
             \<and> cache_index_only w w'
             \<and> (\<forall>k < length (blocks (mem w' this)). block_mapped w' (this, k))
             \<and> filter (\<lambda>e. fst (blk e) \<noteq> this) (index w') = index (UnMap w this)
             \<and> index_ok w'))
   \<and> collision_match w b finder = (fst b \<noteq> finder \<and> obstacle_return (mem w (fst b)) \<noteq> 0)
   \<and> (last_hit hs = None) = (\<forall>h \<in> set hs. h = None)"
proof (intro conjI impI)
  assume "blocks (mem w this) = []"
  then show "TestCollision w this posedelta = Some (None, w)"
    by (simp add: TestCollision_def)
next
  assume a: "blocks (mem w this) \<noteq> [] \<and> is_chain w this ps \<and> index_ok w"
  then have 1: "is_chain w this ps" and 2: "blocks (mem w this) \<noteq> []" and 3: "index_ok w"
    by simp_all
  from TestCollision_index [OF 1 2 3, of posedelta]
  show "\<exists>w'. TestCollision w this posedelta
                 = Some (last_hit (edge_hits (UnMap w this) this ps posedelta), w')
             \<and> index (UnMap w this) = filter (\<lambda>e. fst (blk e) \<noteq> this) (index w)
             \<and> (\<forall>B \<in> set (blocks (mem (UnMap w this) this)). rendered_points B = [])
             \<and> index_ok (UnMap w this)
             \<and> cache_index_only w w'
             \<and> (\<forall>k < length (blocks (mem w' this)). block_mapped w' (this, k))
             \<and> filter (\<lambda>e. fst (blk e) \<noteq> this) (index w') = index (UnMap w this)
             \<and> index_ok w'"
    by blast
next
  show "collision_match w b finder = (fst b \<noteq> finder \<and> obstacle_return (mem w (fst b)) \<noteq> 0)"
    by (simp add: collision_match_def)
  show "(last_hit hs = None) = (\<forall>h \<in> set hs. h = None)"
    by (rule last_hit_None)
qed

theorem TestCollision_reports_last_hit_witness:
  "blocks (mem C2_world 2) \<noteq> [] \<and> is_chain C2_world 2 [] \<and> index_ok C2_world
   \<and> block_mapped C2_world (2, 0) \<and> block_mapped C2_world (3, 0) \<and> block_mapped C2_world (4, 0)
   \<and> map blk (index C2_world)
       = [(2, 0), (2, 0), (2, 0), (2, 0), (2, 0), (2, 0), (2, 0), (2, 0), (2, 0), (2, 0), (2, 0),
          (2, 0), (3, 0), (3, 0), (3, 0), (4, 0), (4, 0), (4, 0)]
   \<and> (\<exists>w'. TestCollision C2_world 2 (new_pose 0 0 0 0) = Some (Some 4, w')
          \<and> map blk (index (UnMap C2_world 2)) = [(3, 0), (3, 0), (3, 0), (4, 0), (4, 0), (4, 0)]
          \<and> block_mapped w' (2, 0)
          \<and> footprint w' (2, 0)
              = [(- 1, - 1), (0, - 1), (1, - 1), (1, - 1), (1, 0), (1, 1),
                 (1, 1), (0, 1), (- 1, 1), (- 1, 1), (- 1, 0), (- 1, - 1)]
          \<and> map blk (filter (\<lambda>e. fst (blk e) \<noteq> 2) (index w'))
              = [(3, 0), (3, 0), (3, 0), (4, 0), (4, 0), (4, 0)]
          \<and> index_ok w')"
proof -
  have h: "blocks (mem C2_world 2) \<noteq> []" "is_chain C2_world 2 []"
    by (simp_all add: C2_world_fields)
  have ix: "map blk (index C2_world)
       = [(2, 0), (2, 0), (2, 0), (2, 0), (2, 0), (2, 0), (2, 0), (2, 0), (2, 0), (2, 0), (2, 0),
          (2, 0), (3, 0), (3, 0), (3, 0), (4, 0), (4, 0), (4, 0)]"
    using square_pixels [of "- 1"]
    by (simp add: C2_world_def render_index C2_base_simps dot_pixels)
  from TestCollision_reports_last_hit [of C2_world 2 "new_pose 0 0 0 0" "[]"] h C2_world_ok
  obtain w' where
    tc: "TestCollision C2_world 2 (new_pose 0 0 0 0)
           = Some (last_hit (edge_hits (UnMap C2_world 2) 2 [] (new_pose 0 0 0 0)), w')"
    and c: "cache_index_only C2_world w'"
    and bm: "\<forall>k < length (blocks (mem w' 2)). block_mapped w' (2, k)"
    and fi: "filter (\<lambda>e. fst (blk e) \<noteq> 2) (index w') = index (UnMap C2_world 2)"
    and ok: "index_ok w'"
    by blast
  have tc': "TestCollision C2_world 2 (new_pose 0 0 0 0) = Some (Some 4, w')"
    using tc by (simp add: C2_world_hits last_hit_def hits_def)
  have iu: "map blk (index (UnMap C2_world 2)) = [(3, 0), (3, 0), (3, 0), (4, 0), (4, 0), (4, 0)]"
    by (simp add: C2_testing_fields)
  have len: "length (blocks (mem w' 2)) = 1"
    using arg_cong [OF C2_world_fields(6), of length]
    by (simp add: cache_index_only_blocks(1) [OF c])
  from bm have b0: "block_mapped w' (2, 0)" by (simp add: len)
  have ch: "is_chain w' 2 []" using h(2) by (simp only: is_chain_cio [OF c])
  have l2: "0 < length (blocks (mem C2_world 2))"
    using arg_cong [OF C2_world_fields(6), of length] by simp
  have p2: "pts (block C2_world (2, 0)) = pts (rect_block (- 0.5) (- 0.5) 1 1)"
    using arg_cong [OF C2_world_fields(6), of "\<lambda>xs. xs ! 0"] l2 by (simp add: block_def)
  have pts': "pts (block w' (2, 0)) = pts (rect_block (- 0.5) (- 0.5) 1 1)"
    by (simp add: cache_index_only_blocks(4) [OF c l2] p2)
  have bf: "body_frame C2_world 2 [] = new_pose 0 0 0 0"
    by (simp add: body_frame_def pose_sum_def new_pose_def C2_world_fields C2_base_simps)
  have vp: "map (vertex_pixel w' 2 []) (pts (rect_block (- 0.5) (- 0.5) 1 1))
              = [(- 1, - 1), (1, - 1), (1, 1), (- 1, 1)]"
    by (simp add: vertex_pixel_cio [OF c] vertex_pixel_def MetersToPixels_def bf C2_world_fields
          rect_block_simps pose_sum_def new_pose_def)
  have fp: "footprint w' (2, 0)
              = [(- 1, - 1), (0, - 1), (1, - 1), (1, - 1), (1, 0), (1, 1),
                 (1, 1), (0, 1), (- 1, 1), (- 1, 1), (- 1, 0), (- 1, - 1)]"
  proof -
    from b0 have "mapped_at w' 2 [] 0" by (simp add: block_mapped_chain [OF ch])
    then have "footprint w' (2, 0)
        = polygon_pixels (map (vertex_pixel w' 2 []) (pts (block w' (2, 0))))"
      by (simp add: mapped_at_def)
    then show ?thesis unfolding pts' vp using square_pixels [of "- 1"] by simp
  qed
  have "\<exists>w'. TestCollision C2_world 2 (new_pose 0 0 0 0) = Some (Some 4, w')
          \<and> map blk (index (UnMap C2_world 2)) = [(3, 0), (3, 0), (3, 0), (4, 0), (4, 0), (4, 0)]
          \<and> block_mapped w' (2, 0)
          \<and> footprint w' (2, 0)
              = [(- 1, - 1), (0, - 1), (1, - 1), (1, - 1), (1, 0), (1, 1),
                 (1, 1), (0, 1), (- 1, 1), (- 1, 1), (- 1, 0), (- 1, - 1)]
          \<and> map blk (filter (\<lambda>e. fst (blk e) \<noteq> 2) (index w'))
              = [(3, 0), (3, 0), (3, 0), (4, 0), (4, 0), (4, 0)]
          \<and> index_ok w'"
    using tc' iu b0 fp fi ok by auto
  with h C2_world_ok C2_world_mapped ix show ?thesis by (intro conjI)
qed

text \<open>
  C2 as stated fails: model 2 is a unit square at the origin, at 2 pixels per metre; model 3
  sits on the middle of its bottom edge (the first edge) and model 4 on the middle of its left
  edge (the last edge). The first hit over all edges is model 3; the reported collision is
  model 4.
\<close>

theorem TestCollision_first_hit_counterexample:
  "first_hit (edge_hits (UnMap C2_world 2) 2 [] (new_pose 0 0 0 0)) = Some 3
   \<and> map_option fst (TestCollision C2_world 2 (new_pose 0 0 0 0)) = Some (Some 4)"
proof -
  have "blocks (mem C2_world 2) \<noteq> []" "is_chain C2_world 2 []"
    by (simp_all add: C2_world_fields)
  from TestCollision_chain [OF this(2) this(1), of "new_pose 0 0 0 0"]
  have "map_option fst (TestCollision C2_world 2 (new_pose 0 0 0 0)) = Some (Some 4)"
    by (auto simp: C2_world_hits last_hit_def hits_def)
  then show ?thesis
    by (simp add: C2_world_hits first_hit_def hits_def)
qed


text \<open>
  C1 (as amended). For an enabled model whose subtree and chain of parents are finite, one
  call of \<^verbatim>\<open>UpdatePose\<close> computes the pose delta
  \<open>p = (velocity.x dt, velocity.y dt, 0, velocity.a dt)\<close> with \<open>dt = interval_sim / 10^6\<close>; the
  z component of the velocity is not used. If \<^verbatim>\<open>TestCollision(p)\<close> reports a hit, the stall
  flag is set and the pose is unchanged; otherwise the stall flag is cleared and
  \<^verbatim>\<open>SetPose\<close> stores \<open>pose_sum pose p\<close> with its heading normalised (the pose stays as it
  is when \<^verbatim>\<open>memcmp\<close> finds \<open>pose_sum pose p\<close> equal to it). A disabled model is left
  alone. The collision test looks along the edges of the model at the displaced pose only;
  scenario S2 is the witness and the counterexample below.
\<close>

theorem UpdatePose_stalls_or_moves:
  assumes "is_subtree w t" and "root t = this" and "is_chain w this ps"
  shows "(disabled (mem w this) \<longrightarrow> UpdatePose w this = Some w)
       \<and> pose_delta w this =
           \<lparr>pose_x = pose_x (velocity (mem w this)) * (real (interval_sim w) / 1000000),
            pose_y = pose_y (velocity (mem w this)) * (real (interval_sim w) / 1000000),
            pose_z = 0,
            pose_a = pose_a (velocity (mem w this)) * (real (interval_sim w) / 1000000)\<rparr>
       \<and> (\<not> disabled (mem w this) \<longrightarrow>
            (\<exists>hit w2 w'.
               TestCollision (trail_checkpoint w this) this (pose_delta w this) = Some (hit, w2)
             \<and> UpdatePose w this = Some w'
             \<and> (hit \<noteq> None \<longrightarrow> stall (mem w' this) \<and> pose (mem w' this) = pose (mem w this))
             \<and> (hit = None \<longrightarrow> \<not> stall (mem w' this)
                  \<and> pose (mem w' this) =
                      (if memcmp_pose (pose (mem w this))
                            (pose_sum (pose (mem w this)) (pose_delta w this)) = 0
                       then pose (mem w this)
                       else (pose_sum (pose (mem w this)) (pose_delta w this))
                              \<lparr>pose_a := normalize (pose_a (pose (mem w this))
                                                    + pose_a (pose_delta w this))\<rparr>))))"
proof (intro conjI impI)
  assume "disabled (mem w this)"
  then show "UpdatePose w this = Some w" by (simp add: UpdatePose_def)
next
  show "pose_delta w this =
           \<lparr>pose_x = pose_x (velocity (mem w this)) * (real (interval_sim w) / 1000000),
            pose_y = pose_y (velocity (mem w this)) * (real (interval_sim w) / 1000000),
            pose_z = 0,
            pose_a = pose_a (velocity (mem w this)) * (real (interval_sim w) / 1000000)\<rparr>"
    by (simp add: pose_delta_def Let_def)
next
  assume en: "\<not> disabled (mem w this)"
  from UpdatePose_effect [OF en assms] obtain hit w2 w' where
    1: "TestCollision (trail_checkpoint w this) this (pose_delta w this) = Some (hit, w2)"
    and 2: "UpdatePose w this = Some w'"
    and 3: "stall (mem w' this) = (hit \<noteq> None)"
    and 4: "pose (mem w' this) =
             (if hit \<noteq> None \<or> pose_sum (pose (mem w this)) (pose_delta w this) = pose (mem w this)
              then pose (mem w this)
              else (pose_sum (pose (mem w this)) (pose_delta w this))
                     \<lparr>pose_a := normalize (pose_a (pose (mem w this)) + pose_a (pose_delta w this))\<rparr>)"
    by blast
  have "(hit \<noteq> None \<longrightarrow> stall (mem w' this) \<and> pose (mem w' this) = pose (mem w this))"
    using 3 4 by simp
  moreover have "(hit = None \<longrightarrow> \<not> stall (mem w' this)
                  \<and> pose (mem w' this) =
                      (if memcmp_pose (pose (mem w this))
                            (pose_sum (pose (mem w this)) (pose_delta w this)) = 0
                       then pose (mem w this)
                       else (pose_sum (pose (mem w this)) (pose_delta w this))
                              \<lparr>pose_a := normalize (pose_a (pose (mem w this))
                                                    + pose_a (pose_delta w this))\<rparr>))"
    using 3 4 by auto
  ultimately show "\<exists>hit w2 w'.
               TestCollision (trail_checkpoint w this) this (pose_delta w this) = Some (hit, w2)
             \<and> UpdatePose w this = Some w'
             \<and> (hit \<noteq> None \<longrightarrow> stall (mem w' this) \<and> pose (mem w' this) = pose (mem w this))
             \<and> (hit = None \<longrightarrow> \<not> stall (mem w' this)
                  \<and> pose (mem w' this) =
                      (if memcmp_pose (pose (mem w this))
                            (pose_sum (pose (mem w this)) (pose_delta w this)) = 0
                       then pose (mem w this)
                       else (pose_sum (pose (mem w this)) (pose_delta w this))
                              \<lparr>pose_a := normalize (pose_a (pose (mem w this))
                                                    + pose_a (pose_delta w this))\<rparr>))"
    using 1 2 by blast
qed

theorem UpdatePose_stalls_or_moves_witness:
  "is_subtree (S2_world 2) (CNode 2 []) \<and> root (CNode 2 []) = 2 \<and> is_chain (S2_world 2) 2 []
   \<and> \<not> disabled (mem (S2_world 2) 2)
   \<and> block_mapped (S2_world 2) (2, 0) \<and> block_mapped (S2_world 2) (3, 0)
   \<and> pose_delta (S2_world 2) 2 = new_pose 2 0 0 0
   \<and> (\<exists>w2 w'. TestCollision (trail_checkpoint (S2_world 2) 2) 2 (new_pose 2 0 0 0) = Some (Some 3, w2)
          \<and> UpdatePose (S2_world 2) 2 = Some w'
          \<and> stall (mem w' 2) \<and> pose_x (pose (mem w' 2)) = 0)
   \<and> is_subtree (S2_world (1 / 2)) (CNode 2 []) \<and> is_chain (S2_world (1 / 2)) 2 []
   \<and> \<not> disabled (mem (S2_world (1 / 2)) 2)
   \<and> block_mapped (S2_world (1 / 2)) (2, 0) \<and> block_mapped (S2_world (1 / 2)) (3, 0)
   \<and> (\<exists>w2 w'. TestCollision (trail_checkpoint (S2_world (1 / 2)) 2) 2 (new_pose (1 / 2) 0 0 0)
                 = Some (None, w2)
          \<and> UpdatePose (S2_world (1 / 2)) 2 = Some w'
          \<and> \<not> stall (mem w' 2) \<and> pose_x (pose (mem w' 2)) = 1 / 2)"
proof -
  have r: "root (CNode 2 []) = 2" by simp
  have en: "\<not> disabled (mem (S2_world v) 2)" for v by (simp add: S2_world_fields)
  have n: "normalize 0 = 0" by (simp add: normalize_id)
  have a: "\<exists>w2 w'. TestCollision (trail_checkpoint (S2_world 2) 2) 2 (new_pose 2 0 0 0) = Some (Some 3, w2)
          \<and> UpdatePose (S2_world 2) 2 = Some w'
          \<and> stall (mem w' 2) \<and> pose_x (pose (mem w' 2)) = 0"
    using UpdatePose_stalls_or_moves [OF S2_tree(1) r S2_tree(2), of 2] en [of 2]
      S2_TestCollision [of 2 "new_pose 2 0 0 0"]
    unfolding S2_pose_delta S2_last_hits
    by (auto simp: S2_world_fields S2_base_simps new_pose_def)
  have b: "\<exists>w2 w'. TestCollision (trail_checkpoint (S2_world (1 / 2)) 2) 2 (new_pose (1 / 2) 0 0 0)
                 = Some (None, w2)
          \<and> UpdatePose (S2_world (1 / 2)) 2 = Some w'
          \<and> \<not> stall (mem w' 2) \<and> pose_x (pose (mem w' 2)) = 1 / 2"
    using UpdatePose_stalls_or_moves [OF S2_tree(1) r S2_tree(2), of "1 / 2"] en [of "1 / 2"]
      S2_TestCollision [of "1 / 2" "new_pose (1 / 2) 0 0 0"]
    unfolding S2_pose_delta S2_last_hits
    by (auto simp: S2_world_fields S2_base_simps new_pose_def pose_sum_def n)
  show ?thesis
    using a b S2_tree r en by (simp add: S2_pose_delta S2_world_mapped)
qed

text \<open>
  C1 as stated fails in scenario S2: with velocity 10 and a tick of one second the rays run
  along the edges of A at x between 9.5 and 10.5, the obstacle B lies between 1.5 and 2.5, no
  ray hits it, and A is moved to x = 10 with the stall flag cleared.
\<close>

theorem UpdatePose_S2_counterexample:
  "UpdatePose (S2_world 10) 2 \<noteq> None
   \<and> \<not> stall (mem (the (UpdatePose (S2_world 10) 2)) 2)
   \<and> pose_x (pose (mem (the (UpdatePose (S2_world 10) 2)) 2)) = 10"
  using S2_update [of 10] unfolding S2_last_hits
  by (auto simp: new_pose_def)


text \<open>
  C6. The trail is appended to only when the update counter is a multiple of 10, and the
  oldest entry is dropped only when the trail already holds more than 100 entries, so the trail
  grows to 101 entries and stays there: after 2000 ticks it holds 101.
\<close>

theorem trail_length_after_2000_ticks:
  "run_ticks 2000 (S2_world (1 / 2)) 2 \<noteq> None
   \<and> length (trail (mem (the (run_ticks 2000 (S2_world (1 / 2)) 2)) 2)) = 101"
proof -
  have en: "\<not> disabled (mem (S2_world (1 / 2)) 2)" by (simp add: S2_world_fields)
  have r: "root (CNode 2 []) = 2" by simp
  from run_ticks_effect [OF en S2_tree(1) r S2_tree(2), of 2000]
  show ?thesis
    by (auto simp: S2_world_fields trail_len_2000)
qed


end
